theory Spec2Isabelle
  imports Main
begin

section \<open>JavaScript values\<close>

text \<open>
  The extraction engine is the JavaScript function \<open>extractDataFromTwb\<close> together with
  \<open>extractDependencies\<close> and \<open>analyzeDependencies\<close>. A JavaScript string is a
  \<open>string\<close>; every \<open>char\<close> is read as one UTF-16 code unit below 256. A value that is
  a string or \<open>null\<close> is a \<open>string option\<close>, \<open>None\<close> being \<open>null\<close> (and the
  \<open>undefined\<close> of a member that an object literal leaves out). Calling a method on
  \<open>null\<close> raises a \<open>TypeError\<close>; such calls return \<open>error + 'a\<close>.
\<close>

datatype error = TypeError

definition truthy :: "string option \<Rightarrow> bool" where
  "truthy v = (case v of None \<Rightarrow> False | Some s \<Rightarrow> s \<noteq> [])"

text \<open>The operator \<open>a || b\<close>.\<close>

definition js_or :: "string option \<Rightarrow> string option \<Rightarrow> string option" where
  "js_or a b = (if truthy a then a else b)"

text \<open>A value placed in a template literal: \<open>null\<close> prints as \<open>null\<close>.\<close>

definition template_str :: "string option \<Rightarrow> string" where
  "template_str v = (case v of None \<Rightarrow> ''null'' | Some s \<Rightarrow> s)"

text \<open>A counter placed in a template literal prints in decimal.\<close>

function number_str :: "nat \<Rightarrow> string" where
  "number_str n =
     (if n < 10 then [char_of (48 + n)]
      else number_str (n div 10) @ [char_of (48 + n mod 10)])"
  by pat_completeness auto
termination
  by (relation "measure (\<lambda>n. n)") auto

text \<open>
  \<open>String.prototype.toLowerCase\<close> on code units below 256: the ASCII capitals and the
  Latin-1 capitals (all of 192..222 but the multiplication sign 215) move up by 32.
\<close>

definition lower_char :: "char \<Rightarrow> char" where
  "lower_char c =
     (let n = (of_char c :: nat)
      in if (65 \<le> n \<and> n \<le> 90) \<or> (192 \<le> n \<and> n \<le> 222 \<and> n \<noteq> 215)
         then char_of (n + 32) else c)"

definition toLowerCase :: "string option \<Rightarrow> error + string" where
  "toLowerCase v = (case v of None \<Rightarrow> Inl TypeError | Some s \<Rightarrow> Inr (map lower_char s))"

text \<open>
  The canonical form of a code unit under the regular expression flag \<open>i\<close> (without
  \<open>u\<close>): its upper case when that is again one code unit. Below 256 the ASCII small
  letters and the Latin-1 small letters 224..254 (but the division sign 247) move down
  by 32; every other code unit below 256 is matched by itself only.
\<close>

definition canonicalize :: "char \<Rightarrow> char" where
  "canonicalize c =
     (let n = (of_char c :: nat)
      in if (97 \<le> n \<and> n \<le> 122) \<or> (224 \<le> n \<and> n \<le> 254 \<and> n \<noteq> 247)
         then char_of (n - 32) else c)"

section \<open>The document tree\<close>

text \<open>
  The parsed workbook: an element has a tag name, its attributes and its child nodes; a
  text node has its text. The document is given by its root node.
\<close>

datatype xml = Element string "(string \<times> string) list" "xml list" | Text string

fun getAttribute :: "xml \<Rightarrow> string \<Rightarrow> string option" where
  "getAttribute (Element n atts ks) a = map_of atts a"
| "getAttribute (Text t) a = None"

fun nodeName :: "xml \<Rightarrow> string" where
  "nodeName (Element n atts ks) = n"
| "nodeName (Text t) = ''#text''"

fun is_element :: "xml \<Rightarrow> bool" where
  "is_element (Element n atts ks) = True"
| "is_element (Text t) = False"

text \<open>
  The descendant elements of a node in document order, each with its parent element
  (\<open>parentElement\<close>).
\<close>

fun descendants :: "xml \<Rightarrow> (xml \<times> xml) list" where
  "descendants (Text t) = []"
| "descendants (Element n atts ks) =
     concat (map (\<lambda>k. (Element n atts ks, k) # descendants k) (filter is_element ks))"

definition getElementsByTagName :: "xml \<Rightarrow> string \<Rightarrow> xml list" where
  "getElementsByTagName e tag =
     map snd (filter (\<lambda>(p, c). nodeName c = tag) (descendants e))"

text \<open>\<open>getElementsByTagName\<close> of the document: the root element is a candidate too.\<close>

definition document_getElementsByTagName :: "xml \<Rightarrow> string \<Rightarrow> xml list" where
  "document_getElementsByTagName root tag =
     filter (\<lambda>c. is_element c \<and> nodeName c = tag) [root] @ getElementsByTagName root tag"

fun textContent :: "xml \<Rightarrow> string" where
  "textContent (Text t) = t"
| "textContent (Element n atts ks) = concat (map textContent ks)"

text \<open>Element \<open>[0]\<close> of a collection, \<open>undefined\<close> when it is empty.\<close>

definition first :: "'a list \<Rightarrow> 'a option" where
  "first xs = (case xs of [] \<Rightarrow> None | x # _ \<Rightarrow> Some x)"

section \<open>Field records\<close>

datatype category = Parameters | Calculated_Field | Default_Field

text \<open>
  One record type for the three object literals of the source (column, parameter,
  placeholder); a member that a literal does not set is \<open>None\<close>. The member
  \<open>alias\<close> is named \<open>field_alias\<close> here. Only the placeholder sets \<open>datasource\<close>.
\<close>

record field =
  counter :: nat
  datasource_name :: "string option"
  datasource_caption :: "string option"
  field_alias :: "string option"
  field_calculation :: "string option"
  field_calculation_bk :: "string option"
  field_caption :: "string option"
  field_datatype :: "string option"
  field_def_agg :: "string option"
  field_desc :: "string option"
  field_hidden :: "bool option"
  field_id :: "string option"
  field_is_nominal :: "bool option"
  field_is_ordinal :: "bool option"
  field_is_quantitative :: "bool option"
  field_name :: "string option"
  field_role :: "string option"
  field_type :: "string option"
  category :: category
  datasource :: "string option"

section \<open>Collecting the raw records\<close>

text \<open>The text of \<open>desc/formatted-text/run\<close> below a column, \<open>null\<close> when absent.\<close>

definition fieldDesc :: "xml \<Rightarrow> string option" where
  "fieldDesc col =
     (case first (getElementsByTagName col ''desc'') of
        None \<Rightarrow> None
      | Some descTag \<Rightarrow>
          (case first (getElementsByTagName descTag ''formatted-text'') of
             None \<Rightarrow> None
           | Some ft \<Rightarrow>
               (case first (getElementsByTagName ft ''run'') of
                  None \<Rightarrow> None
                | Some run \<Rightarrow> Some (textContent run))))"

definition fieldCalculation :: "xml \<Rightarrow> string option" where
  "fieldCalculation col =
     (case first (getElementsByTagName col ''calculation'') of
        None \<Rightarrow> None
      | Some calculationTag \<Rightarrow> getAttribute calculationTag ''formula'')"

text \<open>
  The second disjunct of the category test: the column's parent element is a datasource
  whose name is \<open>parameters\<close> in lower case.
\<close>

definition parentIsParameters :: "xml \<Rightarrow> bool" where
  "parentIsParameters parent =
     (nodeName parent = ''datasource'' \<and>
      (case getAttribute parent ''name'' of
         None \<Rightarrow> False
       | Some n \<Rightarrow> map lower_char n = ''parameters''))"

definition columnRecord ::
  "nat \<Rightarrow> string option \<Rightarrow> string option \<Rightarrow> bool \<Rightarrow> xml \<Rightarrow> xml \<Rightarrow> field" where
  "columnRecord cnt dsName dsCaption isParameterDs parent col =
     (let fieldId = js_or (getAttribute col ''id'')
            (Some (''['' @ template_str (js_or (getAttribute col ''name'')
                                          (Some (''col_'' @ number_str cnt))) @ '']''));
          fieldName = js_or (getAttribute col ''name'') fieldId;
          fieldCaption = js_or (getAttribute col ''caption'') fieldName
      in \<lparr> counter = cnt,
           datasource_name = dsName,
           datasource_caption = dsCaption,
           field_alias = getAttribute col ''alias'',
           field_calculation = fieldCalculation col,
           field_calculation_bk = fieldCalculation col,
           field_caption = fieldCaption,
           field_datatype = getAttribute col ''datatype'',
           field_def_agg = getAttribute col ''default-aggregation'',
           field_desc = fieldDesc col,
           field_hidden = Some (getAttribute col ''hidden'' = Some ''true''),
           field_id = fieldId,
           field_is_nominal = Some (getAttribute col ''semantic-role'' = Some ''[Nominal]''),
           field_is_ordinal = Some (getAttribute col ''semantic-role'' = Some ''[Ordinal]''),
           field_is_quantitative = Some (getAttribute col ''semantic-role'' = Some ''[Measure]''),
           field_name = fieldName,
           field_role = getAttribute col ''role'',
           field_type = getAttribute col ''type'',
           category =
             (if isParameterDs \<or> parentIsParameters parent then Parameters
              else if fieldCalculation col \<noteq> None then Calculated_Field
              else Default_Field),
           datasource = None \<rparr>)"

definition paramRecord :: "nat \<Rightarrow> string option \<Rightarrow> string option \<Rightarrow> xml \<Rightarrow> field" where
  "paramRecord cnt dsName dsCaption param =
     \<lparr> counter = cnt,
       datasource_name = dsName,
       datasource_caption = dsCaption,
       field_alias = getAttribute param ''alias'',
       field_calculation = None,
       field_calculation_bk = None,
       field_caption = js_or (getAttribute param ''caption'') (getAttribute param ''name''),
       field_datatype = getAttribute param ''datatype'',
       field_def_agg = None,
       field_desc = None,
       field_hidden = Some False,
       field_id = Some (''['' @ template_str (getAttribute param ''name'') @ '']''),
       field_is_nominal = None,
       field_is_ordinal = None,
       field_is_quantitative = None,
       field_name = getAttribute param ''name'',
       field_role = Some ''parameter'',
       field_type = Some ''quantitative'',
       category = Parameters,
       datasource = None \<rparr>"

text \<open>
  The loops push onto \<open>allFields\<close> and count up \<open>counter\<close>; the state is the pair of
  both.
\<close>

fun collectColumns ::
  "string option \<Rightarrow> string option \<Rightarrow> bool \<Rightarrow> (xml \<times> xml) list \<Rightarrow> field list \<times> nat
     \<Rightarrow> field list \<times> nat" where
  "collectColumns dsName dsCaption isParameterDs [] st = st"
| "collectColumns dsName dsCaption isParameterDs ((parent, col) # cols) (allFields, cnt) =
     collectColumns dsName dsCaption isParameterDs cols
       (allFields @ [columnRecord cnt dsName dsCaption isParameterDs parent col], cnt + 1)"

fun collectParams ::
  "string option \<Rightarrow> string option \<Rightarrow> xml list \<Rightarrow> field list \<times> nat \<Rightarrow> field list \<times> nat" where
  "collectParams dsName dsCaption [] st = st"
| "collectParams dsName dsCaption (param # params) (allFields, cnt) =
     (if \<not> list_ex (\<lambda>f. field_id f = Some (''['' @ template_str (getAttribute param ''name'') @ '']'')
                          \<and> datasource_name f = Some ''Parameters'') allFields
      then collectParams dsName dsCaption params
             (allFields @ [paramRecord cnt dsName dsCaption param], cnt + 1)
      else collectParams dsName dsCaption params (allFields, cnt))"

definition dsName :: "xml \<Rightarrow> string option" where
  "dsName ds = js_or (getAttribute ds ''name'') (Some ''Unknown Datasource'')"

definition dsCaption :: "xml \<Rightarrow> string option" where
  "dsCaption ds = js_or (getAttribute ds ''caption'') (dsName ds)"

definition collectDatasource :: "xml \<Rightarrow> field list \<times> nat \<Rightarrow> error + (field list \<times> nat)" where
  "collectDatasource ds st =
     (case toLowerCase (dsName ds) of
        Inl e \<Rightarrow> Inl e
      | Inr lowered \<Rightarrow>
          (let isParameterDs = (lowered = ''parameters'');
               st1 = collectColumns (dsName ds) (dsCaption ds) isParameterDs
                       (filter (\<lambda>(p, c). nodeName c = ''column'') (descendants ds)) st
           in Inr (if isParameterDs
                   then collectParams (dsName ds) (dsCaption ds)
                          (getElementsByTagName ds ''param'') st1
                   else st1)))"

fun collectFields :: "xml list \<Rightarrow> field list \<times> nat \<Rightarrow> error + (field list \<times> nat)" where
  "collectFields [] st = Inr st"
| "collectFields (ds # datasources) st =
     (case collectDatasource ds st of
        Inl e \<Rightarrow> Inl e
      | Inr st1 \<Rightarrow> collectFields datasources st1)"

section \<open>The identifier map\<close>

text \<open>
  \<open>calcMapRaw\<close> is a \<open>Map\<close>: it keeps its keys in insertion order, and \<open>set\<close> on a
  key it has replaces the value in place.
\<close>

fun map_set :: "string \<Rightarrow> string \<Rightarrow> (string \<times> string) list \<Rightarrow> (string \<times> string) list" where
  "map_set k v [] = [(k, v)]"
| "map_set k v ((k', v') # m) = (if k' = k then (k, v) # m else (k', v') # map_set k v m)"

text \<open>\<open>field_id.replace(/[\[\]]/g, '')\<close>\<close>

definition stripBrackets :: "string \<Rightarrow> string" where
  "stripBrackets s = filter (\<lambda>c. c \<noteq> CHR ''['' \<and> c \<noteq> CHR '']'') s"

definition friendlyName :: "field \<Rightarrow> string" where
  "friendlyName f = ''['' @ template_str (js_or (field_caption f) (field_name f)) @ '']''"

fun buildCalcMap :: "field list \<Rightarrow> (string \<times> string) list \<Rightarrow> error + (string \<times> string) list" where
  "buildCalcMap [] calcMapRaw = Inr calcMapRaw"
| "buildCalcMap (f # fs) calcMapRaw =
     (case field_id f of
        None \<Rightarrow> Inl TypeError
      | Some fid \<Rightarrow>
          (let cleanId = stripBrackets fid
           in if category f = Calculated_Field \<or> category f = Parameters
              then buildCalcMap fs (map_set cleanId (friendlyName f) calcMapRaw)
              else if map_of calcMapRaw cleanId = None
              then buildCalcMap fs (map_set cleanId (friendlyName f) calcMapRaw)
              else buildCalcMap fs calcMapRaw))"

section \<open>Sorting\<close>

text \<open>
  \<open>Array.prototype.sort\<close> with a comparator is a stable sort, modelled by insertion from
  the right. For a comparator that is a total preorder every conforming sort returns
  this list.
\<close>

fun insert_by :: "('a \<Rightarrow> 'a \<Rightarrow> int) \<Rightarrow> 'a \<Rightarrow> 'a list \<Rightarrow> 'a list" where
  "insert_by cmp x [] = [x]"
| "insert_by cmp x (y # ys) = (if cmp x y \<le> 0 then x # y # ys else y # insert_by cmp x ys)"

definition array_sort :: "('a \<Rightarrow> 'a \<Rightarrow> int) \<Rightarrow> 'a list \<Rightarrow> 'a list" where
  "array_sort cmp xs = foldr (insert_by cmp) xs []"

section \<open>The formula rewriter\<close>

definition sortedKeys :: "(string \<times> string) list \<Rightarrow> string list" where
  "sortedKeys calcMapRaw =
     array_sort (\<lambda>a b. int (length b) - int (length a)) (map fst calcMapRaw)"

text \<open>
  The pattern of a key is \<open>\[key\]\<close> with every metacharacter of the key escaped, under
  the flags \<open>gi\<close>: it matches the bracket, the key's code units up to case, and the
  closing bracket.
\<close>

fun ci_prefix :: "string \<Rightarrow> string \<Rightarrow> bool" where
  "ci_prefix [] s = True"
| "ci_prefix (p # ps) [] = False"
| "ci_prefix (p # ps) (c # cs) = (canonicalize p = canonicalize c \<and> ci_prefix ps cs)"

definition bracketed :: "string \<Rightarrow> string" where
  "bracketed keyId = CHR ''['' # keyId @ '']''"

text \<open>
  The replacement string of \<open>String.prototype.replace\<close> is a template: \<open>$$\<close> stands for
  a dollar sign, \<open>$&\<close> for the match, \<open>$`\<close> for the text before the match and \<open>$'\<close>
  for the text after it. The pattern has no group, so any other dollar sign stands for
  itself.
\<close>

fun getSubstitution :: "string \<Rightarrow> string \<Rightarrow> string \<Rightarrow> string \<Rightarrow> string" where
  "getSubstitution matched passed rest [] = []"
| "getSubstitution matched passed rest [c] = [c]"
| "getSubstitution matched passed rest (c # d # r) =
     (if c = CHR ''$'' \<and> d = CHR ''$'' then CHR ''$'' # getSubstitution matched passed rest r
      else if c = CHR ''$'' \<and> d = CHR ''&'' then matched @ getSubstitution matched passed rest r
      else if c = CHR ''$'' \<and> d = CHR 0x60 then passed @ getSubstitution matched passed rest r
      else if c = CHR ''$'' \<and> d = CHR 0x27 then rest @ getSubstitution matched passed rest r
      else c # getSubstitution matched passed rest (d # r))"

text \<open>
  \<open>formula.replace(regex, replacement)\<close>, scanning from the left: \<open>passed\<close> is the part
  of the formula already scanned. A match is replaced and the scan goes on behind it.
\<close>

function regex_replace :: "string \<Rightarrow> string \<Rightarrow> string \<Rightarrow> string \<Rightarrow> string" where
  "regex_replace keyId replacement passed [] = []"
| "regex_replace keyId replacement passed (c # cs) =
     (if ci_prefix (bracketed keyId) (c # cs)
      then getSubstitution (c # take (Suc (length keyId)) cs) passed
             (drop (Suc (length keyId)) cs) replacement
           @ regex_replace keyId replacement (passed @ c # take (Suc (length keyId)) cs)
               (drop (Suc (length keyId)) cs)
      else c # regex_replace keyId replacement (passed @ [c]) cs)"
  by pat_completeness auto
termination
  by (relation "measure (\<lambda>(k, r, b, s). length s)") auto

definition replaceKey :: "(string \<times> string) list \<Rightarrow> string \<Rightarrow> string \<Rightarrow> string" where
  "replaceKey calcMapRaw keyId formula =
     (case map_of calcMapRaw keyId of
        None \<Rightarrow> formula
      | Some replacement \<Rightarrow>
          if replacement \<noteq> [] then regex_replace keyId replacement [] formula else formula)"

definition rewriteFormula :: "(string \<times> string) list \<Rightarrow> string \<Rightarrow> string" where
  "rewriteFormula calcMapRaw formula =
     fold (replaceKey calcMapRaw) (sortedKeys calcMapRaw) formula"

definition rewriteField :: "(string \<times> string) list \<Rightarrow> field \<Rightarrow> field" where
  "rewriteField calcMapRaw f =
     (case field_calculation f of
        None \<Rightarrow> f
      | Some formula \<Rightarrow>
          if formula \<noteq> [] then f\<lparr>field_calculation := Some (rewriteFormula calcMapRaw formula)\<rparr>
          else f)"

section \<open>Deduplication and the presentation order\<close>

definition parametersFirst :: "field \<Rightarrow> field \<Rightarrow> int" where
  "parametersFirst a b =
     (if datasource_name a = Some ''Parameters'' \<and> datasource_name b \<noteq> Some ''Parameters'' then - 1
      else if datasource_name a \<noteq> Some ''Parameters'' \<and> datasource_name b = Some ''Parameters'' then 1
      else int (counter a) - int (counter b))"

fun keepFirst :: "string option list \<Rightarrow> field list \<Rightarrow> field list" where
  "keepFirst seenFieldIds [] = []"
| "keepFirst seenFieldIds (f # fs) =
     (if field_id f \<notin> set seenFieldIds then f # keepFirst (field_id f # seenFieldIds) fs
      else keepFirst seenFieldIds fs)"

definition uniqueFields :: "field list \<Rightarrow> field list" where
  "uniqueFields allFields = keepFirst [] (array_sort parametersFirst allFields)"

text \<open>\<open>preferenceOrder.indexOf(category)\<close>\<close>

fun preferenceIndex :: "category \<Rightarrow> int" where
  "preferenceIndex Parameters = 0"
| "preferenceIndex Calculated_Field = 1"
| "preferenceIndex Default_Field = 2"

text \<open>Strings compare by their code units, the first difference deciding.\<close>

fun str_less :: "string \<Rightarrow> string \<Rightarrow> bool" where
  "str_less [] [] = False"
| "str_less [] (y # ys) = True"
| "str_less (x # xs) [] = False"
| "str_less (x # xs) (y # ys) =
     ((of_char x :: nat) < of_char y \<or> (x = y \<and> str_less xs ys))"

text \<open>
  \<open>a < b\<close> on values that are strings or \<open>null\<close>. Two strings compare as strings.
  Otherwise both sides are converted to numbers, \<open>null\<close> to 0 and a string by
  \<open>ToNumber\<close>. That conversion is not modelled: \<open>num\<close> is taken as a parameter and gives
  the sign of the number a string converts to, 0 when it converts to \<open>NaN\<close>.
\<close>

fun js_less :: "(string \<Rightarrow> int) \<Rightarrow> string option \<Rightarrow> string option \<Rightarrow> bool" where
  "js_less num (Some x) (Some y) = str_less x y"
| "js_less num None (Some y) = (0 < num y)"
| "js_less num (Some x) None = (num x < 0)"
| "js_less num None None = False"

definition presentationOrder :: "(string \<Rightarrow> int) \<Rightarrow> field \<Rightarrow> field \<Rightarrow> int" where
  "presentationOrder num a b =
     (if preferenceIndex (category a) \<noteq> preferenceIndex (category b)
      then preferenceIndex (category a) - preferenceIndex (category b)
      else if js_less num (datasource_caption a) (datasource_caption b) then - 1
      else if js_less num (datasource_caption b) (datasource_caption a) then 1
      else if js_less num (field_name a) (field_name b) then - 1
      else if js_less num (field_name b) (field_name a) then 1
      else int (counter a) - int (counter b))"

section \<open>Dependencies\<close>

record relationship =
  rel_from :: "string option"
  rel_to :: "string option"

text \<open>
  \<open>formula.match(/\[([^\]]+)\]/g)\<close>: a match starts at a bracket, takes the longest run
  of code units other than the closing bracket, which must not be empty, and the
  closing bracket behind it. The result lists the matches, brackets included.
\<close>

function matchTokens :: "string \<Rightarrow> string list" where
  "matchTokens [] = []"
| "matchTokens (c # cs) =
     (if c = CHR ''['' \<and> takeWhile (\<lambda>x. x \<noteq> CHR '']'') cs \<noteq> []
         \<and> dropWhile (\<lambda>x. x \<noteq> CHR '']'') cs \<noteq> []
      then (c # takeWhile (\<lambda>x. x \<noteq> CHR '']'') cs @ '']'')
           # matchTokens (tl (dropWhile (\<lambda>x. x \<noteq> CHR '']'') cs))
      else matchTokens cs)"
  by pat_completeness auto
termination
  by (relation "measure length")
     (auto simp: less_Suc_eq_le intro!: le_trans [OF diff_le_self length_dropWhile_le])

text \<open>\<open>m.slice(1, -1)\<close>\<close>

definition slice_1_m1 :: "string \<Rightarrow> string" where
  "slice_1_m1 m = butlast (tl m)"

definition fieldDependencies :: "field \<Rightarrow> relationship list" where
  "fieldDependencies f =
     (case field_calculation f of
        None \<Rightarrow> []
      | Some formula \<Rightarrow>
          if formula \<noteq> []
          then map (\<lambda>dep. \<lparr>rel_from = Some dep, rel_to = field_caption f\<rparr>)
                 (filter (\<lambda>dep. Some dep \<noteq> field_caption f)
                    (map slice_1_m1 (matchTokens formula)))
          else [])"

definition extractDependencies :: "field list \<Rightarrow> relationship list" where
  "extractDependencies fs = concat (map fieldDependencies fs)"

text \<open>
  \<open>regex.test(originalFormula)\<close> for the pattern of an identifier: the pattern matches
  somewhere in the formula.
\<close>

fun regex_test :: "string \<Rightarrow> string \<Rightarrow> bool" where
  "regex_test ident [] = ci_prefix (bracketed ident) []"
| "regex_test ident (c # cs) = (ci_prefix (bracketed ident) (c # cs) \<or> regex_test ident cs)"

text \<open>
  The identifier without its outer brackets, when it starts with an opening and ends
  with a closing one: \<open>substring(1, length - 1)\<close>.
\<close>

definition coreIdentifier :: "string \<Rightarrow> string" where
  "coreIdentifier fid =
     (if fid \<noteq> [] \<and> hd fid = CHR ''['' \<and> last fid = CHR '']''
      then butlast (tl fid)
      else fid)"

fun sourcesOf :: "field \<Rightarrow> string \<Rightarrow> field list \<Rightarrow> error + relationship list" where
  "sourcesOf targetField originalFormula [] = Inr []"
| "sourcesOf targetField originalFormula (src # fs) =
     (if field_id src = field_id targetField then sourcesOf targetField originalFormula fs
      else case field_id src of
             None \<Rightarrow> Inl TypeError
           | Some fid \<Rightarrow>
               (case sourcesOf targetField originalFormula fs of
                  Inl e \<Rightarrow> Inl e
                | Inr rels \<Rightarrow>
                    if regex_test (coreIdentifier fid) originalFormula
                    then Inr (\<lparr>rel_from = field_caption src, rel_to = field_caption targetField\<rparr> # rels)
                    else Inr rels))"

fun analyzeDependencies :: "field list \<Rightarrow> field list \<Rightarrow> error + relationship list" where
  "analyzeDependencies fs [] = Inr []"
| "analyzeDependencies fs (targetField # calcs) =
     (case field_calculation_bk targetField of
        None \<Rightarrow> analyzeDependencies fs calcs
      | Some originalFormula \<Rightarrow>
          if originalFormula = [] then analyzeDependencies fs calcs
          else (case sourcesOf targetField originalFormula fs of
                  Inl e \<Rightarrow> Inl e
                | Inr rels \<Rightarrow>
                    (case analyzeDependencies fs calcs of
                       Inl e \<Rightarrow> Inl e
                     | Inr rest \<Rightarrow> Inr (rels @ rest))))"

section \<open>Placeholders and the result\<close>

definition placeholder :: "nat \<Rightarrow> string option \<Rightarrow> field" where
  "placeholder cnt name =
     \<lparr> counter = cnt,
       datasource_name = None,
       datasource_caption = Some ''Unknown'',
       field_alias = None,
       field_calculation = None,
       field_calculation_bk = None,
       field_caption = name,
       field_datatype = None,
       field_def_agg = None,
       field_desc = None,
       field_hidden = None,
       field_id = Some (''['' @ template_str name @ '']''),
       field_is_nominal = None,
       field_is_ordinal = None,
       field_is_quantitative = None,
       field_name = name,
       field_role = None,
       field_type = None,
       category = Default_Field,
       datasource = Some ''Unknown'' \<rparr>"

text \<open>
  The last loop: \<open>allFieldNames\<close> is the set of captions, \<open>added\<close> the records pushed so
  far, in order.
\<close>

fun ensureFields ::
  "relationship list \<Rightarrow> string option list \<Rightarrow> field list \<Rightarrow> nat \<Rightarrow> field list" where
  "ensureFields [] allFieldNames added cnt = added"
| "ensureFields (rel # rels) allFieldNames added cnt =
     (if rel_from rel \<notin> set allFieldNames
      then ensureFields rels (rel_from rel # allFieldNames)
             (added @ [placeholder cnt (rel_from rel)]) (cnt + 1)
      else ensureFields rels allFieldNames added cnt)"

text \<open>The member \<open>fields\<close> of the result is named \<open>result_fields\<close> here.\<close>

record result =
  result_fields :: "field list"
  calcs :: "field list"
  relationships :: "relationship list"

text \<open>
  Steps 2 to 7 of the source, from the raw records, the counter and the identifier map.
  Step 6 is the body of \<open>extractDependencies\<close> word for word.
\<close>

definition sortedFields :: "(string \<Rightarrow> int) \<Rightarrow> (string \<times> string) list \<Rightarrow> field list \<Rightarrow> field list" where
  "sortedFields num calcMapRaw allFields =
     array_sort (presentationOrder num) (uniqueFields (map (rewriteField calcMapRaw) allFields))"

definition assemble ::
  "(string \<Rightarrow> int) \<Rightarrow> (string \<times> string) list \<Rightarrow> field list \<Rightarrow> nat \<Rightarrow> result" where
  "assemble num calcMapRaw allFields cnt =
     (let unique = sortedFields num calcMapRaw allFields;
          calcsForMermaid =
            filter (\<lambda>f. category f = Calculated_Field \<or> category f = Parameters) unique;
          rels = extractDependencies unique
      in \<lparr> result_fields = unique @ ensureFields rels (map field_caption unique) [] cnt,
           calcs = calcsForMermaid,
           relationships = rels \<rparr>)"

definition extractDataFromTwb :: "(string \<Rightarrow> int) \<Rightarrow> xml \<Rightarrow> error + result" where
  "extractDataFromTwb num xmlDoc =
     (case collectFields (document_getElementsByTagName xmlDoc ''datasource'') ([], 0) of
        Inl e \<Rightarrow> Inl e
      | Inr (allFields, cnt) \<Rightarrow>
          (case buildCalcMap allFields [] of
             Inl e \<Rightarrow> Inl e
           | Inr calcMapRaw \<Rightarrow> Inr (assemble num calcMapRaw allFields cnt)))"

section \<open>Example inputs\<close>

text \<open>
  A column element with an id and a caption, and a calculation child when it has a
  formula; and the record the collector makes of such a column.
\<close>

definition column :: "string \<Rightarrow> string \<Rightarrow> string option \<Rightarrow> xml" where
  "column fid caption formula =
     Element ''column'' [(''id'', fid), (''caption'', caption)]
       (case formula of
          None \<Rightarrow> []
        | Some f \<Rightarrow> [Element ''calculation'' [(''formula'', f)] []])"

definition plain_field ::
  "nat \<Rightarrow> string \<Rightarrow> string \<Rightarrow> string \<Rightarrow> string option \<Rightarrow> string option \<Rightarrow> category \<Rightarrow> field" where
  "plain_field cnt ds fid caption formula original cat =
     \<lparr> counter = cnt,
       datasource_name = Some ds,
       datasource_caption = Some ds,
       field_alias = None,
       field_calculation = formula,
       field_calculation_bk = original,
       field_caption = Some caption,
       field_datatype = None,
       field_def_agg = None,
       field_desc = None,
       field_hidden = Some False,
       field_id = Some fid,
       field_is_nominal = Some False,
       field_is_ordinal = Some False,
       field_is_quantitative = Some False,
       field_name = Some fid,
       field_role = None,
       field_type = None,
       category = cat,
       datasource = None \<rparr>"

definition workbook :: "xml list \<Rightarrow> xml" where
  "workbook dss = Element ''workbook'' [] [Element ''datasources'' [] dss]"

text \<open>Scenario A of the specification.\<close>

definition scenarioA :: xml where
  "scenarioA =
     workbook
       [Element ''datasource'' [(''name'', ''Sales'')]
          [column ''[Sales]'' ''Sales'' None,
           column ''[Cost]'' ''Cost'' None,
           column ''[Profit Ratio]'' ''Profit Ratio'' (Some ''[Sales]/[Cost]'')]]"

text \<open>Scenario B of the specification, and the same with the two datasources swapped.\<close>

definition scenarioB :: xml where
  "scenarioB =
     workbook
       [Element ''datasource'' [(''name'', ''Parameters'')]
          [Element ''param'' [(''name'', ''Threshold'')] []],
        Element ''datasource'' [(''name'', ''Sales'')]
          [column ''[Threshold]'' ''Threshold'' None]]"

definition scenarioB_swapped :: xml where
  "scenarioB_swapped =
     workbook
       [Element ''datasource'' [(''name'', ''Sales'')]
          [column ''[Threshold]'' ''Threshold'' None],
        Element ''datasource'' [(''name'', ''Parameters'')]
          [Element ''param'' [(''name'', ''Threshold'')] []]]"

text \<open>Scenario C of the specification: a formula names a field no datasource declares.\<close>

definition scenarioC :: xml where
  "scenarioC =
     workbook
       [Element ''datasource'' [(''name'', ''Sales'')]
          [column ''[Score]'' ''Score'' (Some ''[External Metric]*2'')]]"

text \<open>A datasource named \<open>Parameters\<close> that declares the column \<open>[T]\<close> twice.\<close>

definition twoParameterColumns :: xml where
  "twoParameterColumns =
     workbook
       [Element ''datasource'' [(''name'', ''Parameters'')]
          [column ''[T]'' ''First'' None, column ''[T]'' ''Second'' None],
        Element ''datasource'' [(''name'', ''Sales'')]
          [column ''[T]'' ''Third'' None]]"

text \<open>
  The column \<open>[B]\<close> is declared twice; the second declaration is a calculated field
  whose caption is the identifier of the first column.
\<close>

definition captionIsOtherId :: xml where
  "captionIsOtherId =
     workbook
       [Element ''datasource'' [(''name'', ''Sales'')]
          [column ''[A]'' ''X'' (Some ''[B]''),
           column ''[B]'' ''Y'' None,
           column ''[B]'' ''A'' (Some ''1'')]]"

text \<open>A datasource named \<open>parameters\<close> in lower case, before and after another one.\<close>

definition lowerThenExact :: xml where
  "lowerThenExact =
     workbook
       [Element ''datasource'' [(''name'', ''parameters'')] [column ''[P]'' ''Lower'' None],
        Element ''datasource'' [(''name'', ''Parameters'')] [column ''[P]'' ''Exact'' None]]"

definition salesThenLower :: xml where
  "salesThenLower =
     workbook
       [Element ''datasource'' [(''name'', ''Sales'')] [column ''[P]'' ''Plain'' None],
        Element ''datasource'' [(''name'', ''parameters'')] [column ''[P]'' ''Lower'' None]]"

text \<open>A formula that names a field by its caption, which is not its identifier.\<close>

definition captionReference :: xml where
  "captionReference =
     workbook
       [Element ''datasource'' [(''name'', ''Sales'')]
          [column ''[Calculation_1]'' ''Profit'' None,
           column ''[Calculation_2]'' ''Double Profit'' (Some ''[Profit]*2'')]]"

text \<open>A formula that names a field by its identifier, which is not its caption.\<close>

definition idReference :: xml where
  "idReference =
     workbook
       [Element ''datasource'' [(''name'', ''Sales'')]
          [column ''[Calculation_1]'' ''Profit'' None,
           column ''[Calculation_2]'' ''Double Profit'' (Some ''[calculation_1]*2'')]]"

text \<open>A column and a parameter without any attribute, in a datasource without any.\<close>

definition noAttributes :: xml where
  "noAttributes =
     workbook
       [Element ''datasource'' [] [Element ''column'' [] []],
        Element ''datasource'' [(''name'', ''PARAMETERS'')] [Element ''param'' [] []]]"

text \<open>
  Identifier maps for the rewriter. In \<open>bracketNames\<close> and \<open>salesNames\<close> the friendly
  names have brackets and dollar signs, and in \<open>salesNames\<close> the pattern \<open>$$\<close>. In
  \<open>chainedNames\<close> and \<open>chainedSales\<close> a friendly name is the identifier of another
  entry, and \<open>shadowedSales\<close> has the identifier \<open>Sales Amount\<close> twice up to case.
\<close>

definition bracketNames :: "(string \<times> string) list" where
  "bracketNames = [(''Calculation_1'', ''[Profit ($)]''), (''Calculation_2'', ''[Sales [net]]'')]"


definition chainedNames :: "(string \<times> string) list" where
  "chainedNames = [(''Sales'', ''[Revenue]''), (''Cost'', ''[Sales]'')]"



text \<open>
  Maps with a friendly name that has a replacement pattern: \<open>$$\<close> in \<open>dollarNames\<close> and
  \<open>dollarSales\<close>, \<open>$&\<close> in \<open>matchNames\<close> and \<open>matchSales\<close>, \<open>$`\<close> (the code unit 0x60)
  in \<open>beforeNames\<close> and \<open>beforeSales\<close>, \<open>$'\<close> (the code unit 0x27) in \<open>afterNames\<close> and
  \<open>afterSales\<close>.
\<close>

definition dollarNames :: "(string \<times> string) list" where
  "dollarNames = [(''Net $'', ''[Income]''), (''Tax'', ''[Net $$]'')]"

definition matchNames :: "(string \<times> string) list" where
  "matchNames = [(''Net'', ''[$&]'')]"

definition beforeNames :: "(string \<times> string) list" where
  "beforeNames = [(''Tax'', ''[Duty]''), (''Net'', [CHR ''['', CHR ''$'', CHR 0x60, CHR '']''])]"

definition afterNames :: "(string \<times> string) list" where
  "afterNames = [(''Tax'', ''[Duty]''), (''Net'', [CHR ''['', CHR ''$'', CHR 0x27, CHR '']''])]"





text \<open>
  Maps that the identity resolver cannot build: an identifier with brackets in
  \<open>bracketKey\<close> and \<open>bracketKeySales\<close>, a value that is not in brackets in \<open>bareName\<close>
  and \<open>bareSales\<close>.
\<close>

definition bracketKey :: "(string \<times> string) list" where
  "bracketKey = [(''a][b'', ''[b]'')]"

definition bareName :: "(string \<times> string) list" where
  "bareName = [(''K'', ''K'')]"



section \<open>Auxiliary predicates\<close>

text \<open>
  What holds of every raw record, and of the collector's state: the counters of the
  records pushed so far are 0, 1, ... up to the counter.
\<close>

definition raw_ok :: "field \<Rightarrow> bool" where
  "raw_ok f = (field_id f \<noteq> None \<and> field_calculation f = field_calculation_bk f \<and> datasource f = None
      \<and> datasource_name f \<noteq> None)"

definition collected :: "field list \<times> nat \<Rightarrow> bool" where
  "collected st = (map counter (fst st) = [0..<snd st] \<and> list_all raw_ok (fst st))"

text \<open>A string without brackets.\<close>

definition no_bracket :: "char \<Rightarrow> bool" where
  "no_bracket c = (c \<noteq> CHR ''['' \<and> c \<noteq> CHR '']'')"

definition plain :: "string \<Rightarrow> bool" where
  "plain s = list_all no_bracket s"

text \<open>Equality of two strings up to case, as the flag \<open>i\<close> has it.\<close>

definition ci_eq :: "string \<Rightarrow> string \<Rightarrow> bool" where
  "ci_eq a b = (map canonicalize a = map canonicalize b)"

text \<open>
  The rewriter seen token by token. A token is a bracket, a run without brackets and
  the closing bracket; \<open>tokmap g\<close> replaces the inside of every token by its image
  under \<open>g\<close>, which may have brackets of its own, and \<open>tokens\<close> lists the insides
  from the left.
\<close>

definition closes :: "string \<Rightarrow> bool" where
  "closes cs = (case dropWhile no_bracket cs of [] \<Rightarrow> False | d # ds \<Rightarrow> d = CHR '']'')"

function tokmap :: "(string \<Rightarrow> string) \<Rightarrow> string \<Rightarrow> string" where
  "tokmap g [] = []"
| "tokmap g (c # cs) =
     (if c = CHR ''['' \<and> closes cs
      then bracketed (g (takeWhile no_bracket cs)) @ tokmap g (tl (dropWhile no_bracket cs))
      else c # tokmap g cs)"
  by pat_completeness auto
termination
  by (relation "measure (\<lambda>(g, s). length s)")
     (auto simp: less_Suc_eq_le intro!: le_trans [OF diff_le_self length_dropWhile_le])

function tokens :: "string \<Rightarrow> string list" where
  "tokens [] = []"
| "tokens (c # cs) =
     (if c = CHR ''['' \<and> closes cs
      then takeWhile no_bracket cs # tokens (tl (dropWhile no_bracket cs))
      else tokens cs)"
  by pat_completeness auto
termination
  by (relation "measure length")
     (auto simp: less_Suc_eq_le intro!: le_trans [OF diff_le_self length_dropWhile_le])

text \<open>
  A replacement is literal when it has none of the patterns \<open>$$\<close>, \<open>$&\<close>, \<open>$`\<close> and
  \<open>$'\<close>, and free of context when \<open>String.prototype.replace\<close>, reading it from the
  left, finds no \<open>$`\<close> and no \<open>$'\<close> in it. What a replacement free of context puts
  in the place of a match depends on the match only.
\<close>

fun literal :: "string \<Rightarrow> bool" where
  "literal [] = True"
| "literal [c] = True"
| "literal (c # d # r) =
     (\<not> (c = CHR ''$'' \<and> (d = CHR ''$'' \<or> d = CHR ''&'' \<or> d = CHR 0x60 \<or> d = CHR 0x27))
      \<and> literal (d # r))"

fun context_free :: "string \<Rightarrow> bool" where
  "context_free [] = True"
| "context_free [c] = True"
| "context_free (c # d # r) =
     (if c = CHR ''$'' \<and> (d = CHR ''$'' \<or> d = CHR ''&'') then context_free r
      else if c = CHR ''$'' \<and> (d = CHR 0x60 \<or> d = CHR 0x27) then False
      else context_free (d # r))"

definition expansion :: "string \<Rightarrow> string \<Rightarrow> string" where
  "expansion matched replacement = getSubstitution matched [] [] replacement"

text \<open>
  One key turns the tokens it matches into what its replacement stands for, and the
  keys are tried in the order the rewriter takes them.
\<close>

definition tok_step :: "(string \<times> string) list \<Rightarrow> string \<Rightarrow> string \<Rightarrow> string" where
  "tok_step calcMapRaw keyId t =
     (case map_of calcMapRaw keyId of
        None \<Rightarrow> t
      | Some replacement \<Rightarrow>
          if ci_eq t keyId then slice_1_m1 (expansion (bracketed t) replacement) else t)"

definition tok_rewrite :: "(string \<times> string) list \<Rightarrow> string \<Rightarrow> string" where
  "tok_rewrite calcMapRaw t = slice_1_m1 (rewriteFormula calcMapRaw (bracketed t))"

text \<open>
  A map as the identity resolver builds it: the keys have no bracket and the values
  are friendly names in brackets.
\<close>

definition resolver_map :: "(string \<times> string) list \<Rightarrow> bool" where
  "resolver_map calcMapRaw =
     list_all (\<lambda>(k, v). plain k \<and> v = bracketed (slice_1_m1 v)) calcMapRaw"

text \<open>
  Such a map in which every replacement is free of context: on it the rewriter works
  token by token.
\<close>

definition clean_map :: "(string \<times> string) list \<Rightarrow> bool" where
  "clean_map calcMapRaw =
     (resolver_map calcMapRaw \<and> list_all (\<lambda>(k, v). context_free v) calcMapRaw)"

text \<open>Replacement of every match by a text that depends on the match only.\<close>

function subst :: "string \<Rightarrow> (string \<Rightarrow> string) \<Rightarrow> string \<Rightarrow> string" where
  "subst keyId f [] = []"
| "subst keyId f (c # cs) =
     (if ci_prefix (bracketed keyId) (c # cs)
      then f (c # take (Suc (length keyId)) cs) @ subst keyId f (drop (Suc (length keyId)) cs)
      else c # subst keyId f cs)"
  by pat_completeness auto
termination
  by (relation "measure (\<lambda>(k, f, s). length s)") auto

section \<open>The collector and the identifier map never raise\<close>

lemma js_or_Some_nonempty: "s \<noteq> [] \<Longrightarrow> \<exists>t. js_or a (Some s) = Some t \<and> t \<noteq> []"
  by (cases a) (auto simp: js_or_def truthy_def)

lemma js_or_Some: "\<exists>t. js_or a (Some s) = Some t"
  by (cases a) (auto simp: js_or_def truthy_def)

lemma js_or_None_left [simp]: "js_or None b = b"
  by (simp add: js_or_def truthy_def)

lemma columnRecord_sel [simp]:
  "counter (columnRecord cnt dn dc isP parent col) = cnt"
  "datasource_name (columnRecord cnt dn dc isP parent col) = dn"
  "datasource_caption (columnRecord cnt dn dc isP parent col) = dc"
  "field_calculation (columnRecord cnt dn dc isP parent col) = fieldCalculation col"
  "field_calculation_bk (columnRecord cnt dn dc isP parent col) = fieldCalculation col"
  "datasource (columnRecord cnt dn dc isP parent col) = None"
  by (simp_all add: columnRecord_def Let_def)

lemma columnRecord_id: "field_id (columnRecord cnt dn dc isP parent col) \<noteq> None"
  using js_or_Some [of "getAttribute col ''id''"]
  by (auto simp: columnRecord_def Let_def)

lemma paramRecord_sel [simp]:
  "counter (paramRecord cnt dn dc param) = cnt"
  "datasource_name (paramRecord cnt dn dc param) = dn"
  "datasource_caption (paramRecord cnt dn dc param) = dc"
  "field_calculation (paramRecord cnt dn dc param) = None"
  "field_calculation_bk (paramRecord cnt dn dc param) = None"
  "datasource (paramRecord cnt dn dc param) = None"
  "category (paramRecord cnt dn dc param) = Parameters"
  "field_id (paramRecord cnt dn dc param) = Some (''['' @ template_str (getAttribute param ''name'') @ '']'')"
  by (simp_all add: paramRecord_def)

lemma collectColumns_collected:
  "collected st \<Longrightarrow> dn \<noteq> None \<Longrightarrow> collected (collectColumns dn dc isP cols st)"
proof (induction cols arbitrary: st)
  case Nil
  then show ?case by simp
next
  case (Cons pc cols)
  obtain p c where pc: "pc = (p, c)" by (cases pc)
  obtain fs cnt where st: "st = (fs, cnt)" by (cases st)
  have "collected (fs @ [columnRecord cnt dn dc isP p c], cnt + 1)"
    using Cons.prems columnRecord_id [of cnt dn dc isP p c]
    by (simp add: collected_def st raw_ok_def)
  then show ?case
    using Cons.IH Cons.prems(2) by (simp add: pc st)
qed

lemma collectParams_collected:
  "collected st \<Longrightarrow> dn \<noteq> None \<Longrightarrow> collected (collectParams dn dc params st)"
proof (induction params arbitrary: st)
  case Nil
  then show ?case by simp
next
  case (Cons param params)
  obtain fs cnt where st: "st = (fs, cnt)" by (cases st)
  have "collected (fs @ [paramRecord cnt dn dc param], cnt + 1)"
    using Cons.prems by (simp add: collected_def st raw_ok_def)
  then show ?case
    using Cons.IH Cons.prems by (simp add: st)
qed

lemma dsName_Some: "\<exists>t. dsName ds = Some t"
  using js_or_Some by (simp add: dsName_def)

lemma collectDatasource_collected:
  assumes "collected st"
  shows "\<exists>st'. collectDatasource ds st = Inr st' \<and> collected st'"
proof -
  obtain t where t: "dsName ds = Some t"
    using dsName_Some by blast
  show ?thesis
    using assms
    by (simp add: collectDatasource_def t toLowerCase_def Let_def
        collectColumns_collected collectParams_collected)
qed

lemma collectFields_collected:
  "collected st \<Longrightarrow> \<exists>st'. collectFields dss st = Inr st' \<and> collected st'"
proof (induction dss arbitrary: st)
  case Nil
  then show ?case by simp
next
  case (Cons ds dss)
  obtain st1 where "collectDatasource ds st = Inr st1" "collected st1"
    using collectDatasource_collected [OF Cons.prems] by blast
  then show ?case
    using Cons.IH by simp
qed

lemma buildCalcMap_total:
  "list_all raw_ok fs \<Longrightarrow> \<exists>m. buildCalcMap fs m0 = Inr m"
proof (induction fs arbitrary: m0)
  case Nil
  then show ?case by simp
next
  case (Cons f fs)
  then obtain fid where "field_id f = Some fid"
    by (auto simp: raw_ok_def)
  then show ?case
    using Cons by (simp add: Let_def)
qed

lemma extract_stages:
  "\<exists>allFields cnt calcMapRaw.
     collectFields (document_getElementsByTagName xmlDoc ''datasource'') ([], 0) = Inr (allFields, cnt)
     \<and> buildCalcMap allFields [] = Inr calcMapRaw
     \<and> collected (allFields, cnt)
     \<and> extractDataFromTwb num xmlDoc = Inr (assemble num calcMapRaw allFields cnt)"
proof -
  have "collected ([], 0)" by (simp add: collected_def)
  then obtain st where st: "collectFields (document_getElementsByTagName xmlDoc ''datasource'') ([], 0) = Inr st"
    "collected st"
    using collectFields_collected by blast
  obtain fs cnt where fc: "st = (fs, cnt)" by (cases st)
  obtain m where "buildCalcMap fs [] = Inr m"
    using buildCalcMap_total st(2) by (auto simp: collected_def fc)
  then show ?thesis
    using st by (simp add: extractDataFromTwb_def fc)
qed

lemma stages_unique:
  assumes "collectFields (document_getElementsByTagName xmlDoc ''datasource'') ([], 0) = Inr (allFields, cnt)"
    and "extractDataFromTwb num xmlDoc = Inr out"
  shows "\<exists>calcMapRaw. buildCalcMap allFields [] = Inr calcMapRaw
           \<and> out = assemble num calcMapRaw allFields cnt \<and> collected (allFields, cnt)"
  using extract_stages [of xmlDoc num] assms by auto

lemma stages_result:
  assumes "collectFields (document_getElementsByTagName xmlDoc ''datasource'') ([], 0) = Inr (allFields, cnt)"
    and "buildCalcMap allFields [] = Inr calcMapRaw"
    and "extractDataFromTwb num xmlDoc = Inr out"
  shows "out = assemble num calcMapRaw allFields cnt" "collected (allFields, cnt)"
  using extract_stages [of xmlDoc num] assms by auto

section \<open>Sorting and deduplication\<close>

lemma set_insert_by [simp]: "set (insert_by cmp x ys) = insert x (set ys)"
  by (induction ys) auto

lemma set_array_sort [simp]: "set (array_sort cmp xs) = set xs"
  by (induction xs) (auto simp: array_sort_def)

lemma length_insert_by [simp]: "length (insert_by cmp x ys) = Suc (length ys)"
  by (induction ys) auto

lemma length_array_sort [simp]: "length (array_sort cmp xs) = length xs"
  by (induction xs) (auto simp: array_sort_def)

lemma distinct_map_insert_by:
  "distinct (map f (insert_by cmp x ys)) = (f x \<notin> f ` set ys \<and> distinct (map f ys))"
  by (induction ys) auto

lemma array_sort_Nil [simp]: "array_sort cmp [] = []"
  by (simp add: array_sort_def)

lemma array_sort_Cons: "array_sort cmp (x # xs) = insert_by cmp x (array_sort cmp xs)"
  by (simp add: array_sort_def)

lemma distinct_map_array_sort [simp]:
  "distinct (map f (array_sort cmp xs)) = distinct (map f xs)"
  by (induction xs) (auto simp: array_sort_Cons distinct_map_insert_by)

lemma sorted_wrt_insert_by:
  assumes tot: "\<And>a b. cmp a b \<le> 0 \<or> cmp b a \<le> 0"
    and trans: "\<And>a b c. cmp a b \<le> 0 \<Longrightarrow> cmp b c \<le> 0 \<Longrightarrow> cmp a c \<le> 0"
  shows "sorted_wrt (\<lambda>a b. cmp a b \<le> 0) ys \<Longrightarrow> sorted_wrt (\<lambda>a b. cmp a b \<le> 0) (insert_by cmp x ys)"
proof (induction ys)
  case Nil
  then show ?case by simp
next
  case (Cons y ys)
  show ?case
  proof (cases "cmp x y \<le> 0")
    case True
    then have "\<forall>z\<in>set ys. cmp x z \<le> 0"
      using Cons.prems trans by auto
    then show ?thesis using True Cons.prems by simp
  next
    case False
    then have "cmp y x \<le> 0" using tot by blast
    then show ?thesis using False Cons by auto
  qed
qed

lemma sorted_wrt_array_sort:
  assumes tot: "\<And>a b. cmp a b \<le> 0 \<or> cmp b a \<le> 0"
    and trans: "\<And>a b c. cmp a b \<le> 0 \<Longrightarrow> cmp b c \<le> 0 \<Longrightarrow> cmp a c \<le> 0"
  shows "sorted_wrt (\<lambda>a b. cmp a b \<le> 0) (array_sort cmp xs)"
  by (induction xs) (simp_all add: array_sort_Cons sorted_wrt_insert_by [OF tot trans] del: insert_by.simps)

lemma parametersFirst_total: "parametersFirst a b \<le> 0 \<or> parametersFirst b a \<le> 0"
  by (auto simp: parametersFirst_def)

lemma parametersFirst_trans:
  "parametersFirst a b \<le> 0 \<Longrightarrow> parametersFirst b c \<le> 0 \<Longrightarrow> parametersFirst a c \<le> 0"
  by (auto simp: parametersFirst_def split: if_splits)

lemma sorted_parametersFirst:
  "sorted_wrt (\<lambda>a b. parametersFirst a b \<le> 0) (array_sort parametersFirst xs)"
  by (rule sorted_wrt_array_sort [OF parametersFirst_total parametersFirst_trans])

text \<open>Keeping the first record of every id.\<close>

lemma keepFirst_subset: "f \<in> set (keepFirst seen xs) \<Longrightarrow> f \<in> set xs \<and> field_id f \<notin> set seen"
proof (induction xs arbitrary: seen)
  case Nil
  then show ?case by simp
next
  case (Cons x xs)
  show ?case
  proof (cases "field_id x \<in> set seen")
    case True
    then show ?thesis using Cons by simp
  next
    case False
    then have "f = x \<or> f \<in> set (keepFirst (field_id x # seen) xs)"
      using Cons.prems by simp
    then show ?thesis
      using False Cons.IH [of "field_id x # seen"] by auto
  qed
qed

lemma keepFirst_distinct: "distinct (map field_id (keepFirst seen xs))"
proof (induction xs arbitrary: seen)
  case Nil
  then show ?case by simp
next
  case (Cons x xs)
  have "\<forall>g\<in>set (keepFirst (field_id x # seen) xs). field_id g \<noteq> field_id x"
    using keepFirst_subset [of _ "field_id x # seen" xs] by auto
  then show ?case
    using Cons.IH by auto
qed

lemma keepFirst_keeps:
  "field_id f \<notin> set seen \<Longrightarrow> field_id f \<notin> field_id ` set ys \<Longrightarrow> f \<in> set (keepFirst seen (ys @ f # zs))"
  by (induction ys arbitrary: seen) auto

lemma keepFirst_drops:
  "f \<in> set (keepFirst seen xs) \<Longrightarrow> xs = ys @ g # zs \<Longrightarrow> field_id g = field_id f \<Longrightarrow> f \<notin> set ys \<Longrightarrow> f = g"
proof (induction xs arbitrary: seen ys)
  case Nil
  then show ?case by simp
next
  case (Cons x xs)
  show ?case
  proof (cases ys)
    case Nil
    then have xg: "x = g" using Cons.prems by simp
    show ?thesis
    proof (cases "field_id x \<in> set seen")
      case True
      then show ?thesis using Cons.prems keepFirst_subset [of f seen xs] xg by auto
    next
      case False
      then show ?thesis using Cons.prems keepFirst_subset [of f "field_id x # seen" xs] xg by auto
    qed
  next
    case (Cons y ys')
    then have "x = y" "xs = ys' @ g # zs" "f \<noteq> y" "f \<notin> set ys'" using Cons.prems by auto
    then show ?thesis using Cons.IH [of _ ys'] Cons.prems by (auto split: if_splits)
  qed
qed

lemma keepFirst_some:
  "f \<in> set xs \<Longrightarrow> field_id f \<notin> set seen \<Longrightarrow> \<exists>g\<in>set (keepFirst seen xs). field_id g = field_id f"
proof (induction xs arbitrary: seen)
  case Nil
  then show ?case by simp
next
  case (Cons x xs)
  then show ?case by (cases "field_id x = field_id f") auto
qed

section \<open>Placeholders, dependencies and the frame of the rewriter\<close>

lemma placeholder_sel [simp]:
  "counter (placeholder cnt name) = cnt"
  "field_caption (placeholder cnt name) = name"
  "field_name (placeholder cnt name) = name"
  "field_id (placeholder cnt name) = Some (''['' @ template_str name @ '']'')"
  "datasource (placeholder cnt name) = Some ''Unknown''"
  "datasource_caption (placeholder cnt name) = Some ''Unknown''"
  "datasource_name (placeholder cnt name) = None"
  "category (placeholder cnt name) = Default_Field"
  "field_calculation (placeholder cnt name) = None"
  "field_calculation_bk (placeholder cnt name) = None"
  by (simp_all add: placeholder_def)

lemma ensureFields_append:
  "ensureFields rels names added cnt = added @ ensureFields rels names [] cnt"
proof (induction rels arbitrary: names added cnt)
  case Nil
  then show ?case by simp
next
  case (Cons rel rels)
  show ?case
    using Cons.IH [of "rel_from rel # names" "added @ [placeholder cnt (rel_from rel)]" "cnt + 1"]
      Cons.IH [of "rel_from rel # names" "[placeholder cnt (rel_from rel)]" "cnt + 1"]
      Cons.IH [of names added cnt]
    by (simp add: ensureFields.simps(2))
qed

lemma ensureFields_Cons:
  "ensureFields (rel # rels) names [] cnt =
     (if rel_from rel \<notin> set names
      then placeholder cnt (rel_from rel) # ensureFields rels (rel_from rel # names) [] (cnt + 1)
      else ensureFields rels names [] cnt)"
  using ensureFields_append [of rels "rel_from rel # names" "[placeholder cnt (rel_from rel)]" "cnt + 1"]
  by (simp add: ensureFields.simps(2))

declare ensureFields.simps(2) [simp del]

lemma ensureFields_covers:
  "rel \<in> set rels \<Longrightarrow>
     rel_from rel \<in> set names \<union> field_caption ` set (ensureFields rels names [] cnt)"
proof (induction rels arbitrary: names cnt)
  case Nil
  then show ?case by simp
next
  case (Cons r rels)
  show ?case
  proof (cases "rel = r")
    case True
    then show ?thesis by (simp add: ensureFields_Cons)
  next
    case False
    then have "rel \<in> set rels" using Cons.prems by simp
    then show ?thesis
      using Cons.IH [of "rel_from r # names" "cnt + 1"] Cons.IH [of names cnt]
      by (auto simp: ensureFields_Cons)
  qed
qed

lemma ensureFields_form:
  "p \<in> set (ensureFields rels names [] cnt) \<Longrightarrow>
     \<exists>rel c. rel \<in> set rels \<and> rel_from rel \<notin> set names \<and> cnt \<le> c
        \<and> p = placeholder c (rel_from rel)"
proof (induction rels arbitrary: names cnt)
  case Nil
  then show ?case by simp
next
  case (Cons r rels)
  show ?case
  proof (cases "rel_from r \<in> set names")
    case True
    then have "p \<in> set (ensureFields rels names [] cnt)"
      using Cons.prems by (simp add: ensureFields_Cons)
    from Cons.IH [OF this] show ?thesis by auto
  next
    case False
    then have "p = placeholder cnt (rel_from r)
        \<or> p \<in> set (ensureFields rels (rel_from r # names) [] (cnt + 1))"
      using Cons.prems by (simp add: ensureFields_Cons)
    then show ?thesis
    proof
      assume "p = placeholder cnt (rel_from r)"
      then show ?thesis using False by auto
    next
      assume "p \<in> set (ensureFields rels (rel_from r # names) [] (cnt + 1))"
      from Cons.IH [OF this] obtain rel c where
        "rel \<in> set rels" "rel_from rel \<notin> set (rel_from r # names)" "cnt + 1 \<le> c"
        "p = placeholder c (rel_from rel)"
        by blast
      then have "rel \<in> set (r # rels) \<and> rel_from rel \<notin> set names \<and> cnt \<le> c
          \<and> p = placeholder c (rel_from rel)"
        by simp
      then show ?thesis by blast
    qed
  qed
qed

lemma ensureFields_counters:
  "map counter (ensureFields rels names [] cnt)
     = [cnt ..< cnt + length (ensureFields rels names [] cnt)]"
proof (induction rels arbitrary: names cnt)
  case Nil
  then show ?case by simp
next
  case (Cons r rels)
  let ?n = "length (ensureFields rels (rel_from r # names) [] (Suc cnt))"
  have "[cnt..<cnt + Suc ?n] = cnt # [Suc cnt..<Suc cnt + ?n]"
    by (simp add: upt_rec)
  then show ?case
    using Cons.IH [of "rel_from r # names" "Suc cnt"] Cons.IH [of names cnt]
    by (simp add: ensureFields_Cons)
qed

lemma ensureFields_new_captions:
  "distinct (map field_caption (ensureFields rels names [] cnt))
     \<and> field_caption ` set (ensureFields rels names [] cnt) \<inter> set names = {}"
proof (induction rels arbitrary: names cnt)
  case Nil
  then show ?case by simp
next
  case (Cons r rels)
  show ?case
    using Cons.IH [of "rel_from r # names" "cnt + 1"] Cons.IH [of names cnt]
    by (auto simp: ensureFields_Cons)
qed

lemma ensureFields_distinct_ids:
  assumes "\<forall>rel\<in>set rels. rel_from rel \<noteq> None"
  shows "distinct (map field_id (ensureFields rels names [] cnt))"
proof -
  let ?ps = "ensureFields rels names [] cnt"
  have form: "\<forall>p\<in>set ?ps. \<exists>dep. field_caption p = Some dep \<and> field_id p = Some (''['' @ dep @ '']'')"
  proof
    fix p assume "p \<in> set ?ps"
    then obtain rel c where rel: "rel \<in> set rels" "p = placeholder c (rel_from rel)"
      using ensureFields_form by blast
    then obtain dep where "rel_from rel = Some dep" using assms by auto
    then show "\<exists>dep. field_caption p = Some dep \<and> field_id p = Some (''['' @ dep @ '']'')"
      using rel(2) by (simp add: template_str_def)
  qed
  have "inj_on field_id (set ?ps)"
  proof (rule inj_onI)
    fix p q assume pq: "p \<in> set ?ps" "q \<in> set ?ps" "field_id p = field_id q"
    obtain dp where dp: "field_caption p = Some dp" "field_id p = Some (''['' @ dp @ '']'')"
      using form pq(1) by blast
    obtain dq where dq: "field_caption q = Some dq" "field_id q = Some (''['' @ dq @ '']'')"
      using form pq(2) by blast
    have "field_caption p = field_caption q"
      using dp dq pq(3) by simp
    moreover have "distinct (map field_caption ?ps)"
      using ensureFields_new_captions by blast
    ultimately show "p = q"
      using pq(1,2) by (meson distinct_map inj_onD)
  qed
  moreover have "distinct ?ps"
    using ensureFields_new_captions [of rels names cnt] by (simp add: distinct_map)
  ultimately show ?thesis
    by (simp add: distinct_map)
qed

lemma fieldDependencies_form:
  "rel \<in> set (fieldDependencies f) \<Longrightarrow>
     rel_to rel = field_caption f \<and> (\<exists>dep. rel_from rel = Some dep) \<and> field_calculation f \<noteq> None"
  by (cases "field_calculation f") (auto simp: fieldDependencies_def split: if_splits)

lemma extractDependencies_form:
  "rel \<in> set (extractDependencies fs) \<Longrightarrow>
     \<exists>f\<in>set fs. rel_to rel = field_caption f \<and> (\<exists>dep. rel_from rel = Some dep)
        \<and> field_calculation f \<noteq> None"
  using fieldDependencies_form by (fastforce simp: extractDependencies_def)

lemma result_fields_assemble:
  "result_fields (assemble num m fs cnt) =
     sortedFields num m fs
     @ ensureFields (extractDependencies (sortedFields num m fs))
         (map field_caption (sortedFields num m fs)) [] cnt"
  by (simp add: assemble_def Let_def)

lemma relationships_assemble:
  "relationships (assemble num m fs cnt) = extractDependencies (sortedFields num m fs)"
  by (simp add: assemble_def Let_def)

lemma calcs_assemble:
  "calcs (assemble num m fs cnt) =
     filter (\<lambda>f. category f = Calculated_Field \<or> category f = Parameters) (sortedFields num m fs)"
  by (simp add: assemble_def Let_def)

lemma set_uniqueFields_subset: "set (uniqueFields fs) \<subseteq> set fs"
  using keepFirst_subset by (fastforce simp: uniqueFields_def)

lemma set_sortedFields: "set (sortedFields num m fs) \<subseteq> rewriteField m ` set fs"
  using set_uniqueFields_subset [of "map (rewriteField m) fs"]
  by (simp add: sortedFields_def)

lemma distinct_ids_sortedFields: "distinct (map field_id (sortedFields num m fs))"
  by (simp add: sortedFields_def uniqueFields_def keepFirst_distinct)

lemma rewriteField_frame: "rewriteField m f = f\<lparr>field_calculation := field_calculation (rewriteField m f)\<rparr>"
  by (simp add: rewriteField_def split: option.splits)

lemma rewriteField_sel [simp]:
  "counter (rewriteField m f) = counter f"
  "field_id (rewriteField m f) = field_id f"
  "field_caption (rewriteField m f) = field_caption f"
  "datasource_name (rewriteField m f) = datasource_name f"
  "field_calculation_bk (rewriteField m f) = field_calculation_bk f"
  "category (rewriteField m f) = category f"
  "datasource (rewriteField m f) = datasource f"
  by (simp_all add: rewriteField_def split: option.splits)

lemma placeholders_have_no_formula:
  "p \<in> set (ensureFields rels names [] cnt) \<Longrightarrow> field_calculation_bk p = None"
  using ensureFields_form [of p rels names cnt] by auto

section \<open>The records of a datasource\<close>

lemma collectColumns_built:
  "f \<in> set (fst (collectColumns dn dc isP cols st)) \<Longrightarrow>
     f \<in> set (fst st) \<or> (\<exists>c p e. (p, e) \<in> set cols \<and> f = columnRecord c dn dc isP p e)"
proof (induction cols arbitrary: st)
  case Nil
  then show ?case by simp
next
  case (Cons pc cols)
  obtain p e where pc: "pc = (p, e)" by (cases pc)
  obtain fs cnt where st: "st = (fs, cnt)" by (cases st)
  have "f \<in> set (fst (collectColumns dn dc isP cols (fs @ [columnRecord cnt dn dc isP p e], cnt + 1)))"
    using Cons.prems by (simp add: pc st)
  from Cons.IH [OF this] show ?case
    by (auto simp: pc st)
qed

lemma collectParams_built:
  "f \<in> set (fst (collectParams dn dc params st)) \<Longrightarrow>
     f \<in> set (fst st) \<or> (\<exists>c e. e \<in> set params \<and> f = paramRecord c dn dc e)"
proof (induction params arbitrary: st)
  case Nil
  then show ?case by simp
next
  case (Cons param params)
  obtain fs cnt where st: "st = (fs, cnt)" by (cases st)
  show ?case
  proof (cases "list_ex (\<lambda>f. field_id f = Some (''['' @ template_str (getAttribute param ''name'') @ '']'')
                          \<and> datasource_name f = Some ''Parameters'') fs")
    case True
    then have "f \<in> set (fst (collectParams dn dc params (fs, cnt)))"
      using Cons.prems by (simp add: st)
    from Cons.IH [OF this] show ?thesis by (auto simp: st)
  next
    case False
    then have "f \<in> set (fst (collectParams dn dc params (fs @ [paramRecord cnt dn dc param], cnt + 1)))"
      using Cons.prems by (simp add: st)
    from Cons.IH [OF this] show ?thesis by (auto simp: st)
  qed
qed

text \<open>The records a datasource contributes.\<close>

lemma collectDatasource_built:
  assumes "collectDatasource ds st = Inr st'" and "f \<in> set (fst st')"
  shows "f \<in> set (fst st)
     \<or> (\<exists>c p e. (p, e) \<in> set (descendants ds) \<and> nodeName e = ''column''
            \<and> f = columnRecord c (dsName ds) (dsCaption ds)
                    (toLowerCase (dsName ds) = Inr ''parameters'') p e)
     \<or> (\<exists>c e. e \<in> set (getElementsByTagName ds ''param'')
            \<and> toLowerCase (dsName ds) = Inr ''parameters''
            \<and> f = paramRecord c (dsName ds) (dsCaption ds) e)"
proof -
  obtain t where t: "dsName ds = Some t"
    using dsName_Some by blast
  let ?isP = "map lower_char t = ''parameters''"
  let ?cols = "filter (\<lambda>(p, c). nodeName c = ''column'') (descendants ds)"
  let ?st1 = "collectColumns (dsName ds) (dsCaption ds) ?isP ?cols st"
  have isP: "(toLowerCase (dsName ds) = Inr ''parameters'') = ?isP"
    by (simp add: t toLowerCase_def)
  have st': "st' = (if ?isP then collectParams (dsName ds) (dsCaption ds)
                                  (getElementsByTagName ds ''param'') ?st1 else ?st1)"
    using assms(1) by (auto simp: collectDatasource_def t toLowerCase_def Let_def)
  have cols: "g \<in> set (fst st)
        \<or> (\<exists>c p e. (p, e) \<in> set (descendants ds) \<and> nodeName e = ''column''
              \<and> g = columnRecord c (dsName ds) (dsCaption ds) ?isP p e)"
    if "g \<in> set (fst ?st1)" for g
    using collectColumns_built [OF that] by auto
  show ?thesis
  proof (cases ?isP)
    case False
    then show ?thesis
      using cols [of f] assms(2) st' isP by auto
  next
    case True
    then have "f \<in> set (fst ?st1) \<or> (\<exists>c e. e \<in> set (getElementsByTagName ds ''param'')
        \<and> f = paramRecord c (dsName ds) (dsCaption ds) e)"
      using collectParams_built [of f "dsName ds" "dsCaption ds" "getElementsByTagName ds ''param''" ?st1]
        assms(2) st' by simp
    then show ?thesis
      using cols [of f] True isP by auto
  qed
qed

lemma collectFields_built:
  assumes "collectFields dss st = Inr st'" and "f \<in> set (fst st')"
  shows "f \<in> set (fst st)
     \<or> (\<exists>ds\<in>set dss.
          (\<exists>c p e. (p, e) \<in> set (descendants ds) \<and> nodeName e = ''column''
              \<and> f = columnRecord c (dsName ds) (dsCaption ds)
                      (toLowerCase (dsName ds) = Inr ''parameters'') p e)
          \<or> (\<exists>c e. e \<in> set (getElementsByTagName ds ''param'')
              \<and> toLowerCase (dsName ds) = Inr ''parameters''
              \<and> f = paramRecord c (dsName ds) (dsCaption ds) e))"
  using assms
proof (induction dss arbitrary: st)
  case Nil
  then show ?case by simp
next
  case (Cons ds dss)
  then obtain st1 where st1: "collectDatasource ds st = Inr st1" "collectFields dss st1 = Inr st'"
    by (auto split: sum.splits)
  from Cons.IH [OF st1(2) Cons.prems(2)] show ?case
  proof
    assume "f \<in> set (fst st1)"
    from collectDatasource_built [OF st1(1) this] show ?thesis by auto
  next
    assume "\<exists>ds\<in>set dss.
          (\<exists>c p e. (p, e) \<in> set (descendants ds) \<and> nodeName e = ''column''
              \<and> f = columnRecord c (dsName ds) (dsCaption ds)
                      (toLowerCase (dsName ds) = Inr ''parameters'') p e)
          \<or> (\<exists>c e. e \<in> set (getElementsByTagName ds ''param'')
              \<and> toLowerCase (dsName ds) = Inr ''parameters''
              \<and> f = paramRecord c (dsName ds) (dsCaption ds) e)"
    then show ?thesis by auto
  qed
qed

section \<open>Precedence in the deduplication\<close>

lemma dedup_loser:
  assumes "x \<in> set ys" and "q \<in> set ys" and "field_id q = field_id x"
    and "0 < parametersFirst x q"
  shows "x \<notin> set (uniqueFields ys)"
proof
  let ?xs = "array_sort parametersFirst ys"
  assume "x \<in> set (uniqueFields ys)"
  then have kept: "x \<in> set (keepFirst [] ?xs)"
    by (simp add: uniqueFields_def)
  have "q \<in> set ?xs" using assms(2) by simp
  then obtain us vs where split: "?xs = us @ q # vs"
    by (meson split_list)
  have "x \<notin> set us"
  proof
    assume "x \<in> set us"
    then have "parametersFirst x q \<le> 0"
      using sorted_parametersFirst [of ys] by (simp add: split sorted_wrt_append)
    then show False using assms(4) by simp
  qed
  then have "x = q"
    using keepFirst_drops [OF kept split assms(3)] by simp
  then show False
    using assms(4) by (simp add: parametersFirst_def)
qed

lemma dedup_winner:
  assumes "p \<in> set ys"
    and "\<forall>q\<in>set ys. field_id q = field_id p \<and> q \<noteq> p \<longrightarrow> 0 < parametersFirst q p"
  shows "p \<in> set (uniqueFields ys)"
proof -
  let ?xs = "array_sort parametersFirst ys"
  have "p \<in> set ?xs" using assms(1) by simp
  then obtain us vs where split: "?xs = us @ p # vs" "p \<notin> set us"
    by (meson split_list_first)
  have "field_id u \<noteq> field_id p" if "u \<in> set us" for u
  proof
    assume same: "field_id u = field_id p"
    have "u \<in> set ?xs"
      unfolding split(1) using that by simp
    then have "u \<in> set ys"
      by simp
    moreover have "u \<noteq> p" using that split(2) by auto
    ultimately have "0 < parametersFirst u p"
      using assms(2) same by simp
    moreover have "parametersFirst u p \<le> 0"
      using sorted_parametersFirst [of ys] that by (simp add: split(1) sorted_wrt_append)
    ultimately show False by simp
  qed
  then have "field_id p \<notin> field_id ` set us" by force
  then have "p \<in> set (keepFirst [] (us @ p # vs))"
    by (intro keepFirst_keeps) simp_all
  then show ?thesis
    by (simp add: uniqueFields_def split(1))
qed

lemma parametersFirst_rewriteField [simp]:
  "parametersFirst (rewriteField m a) (rewriteField m b) = parametersFirst a b"
  by (simp add: parametersFirst_def)

lemma collected_counters:
  assumes "collected (fs, cnt)"
  shows "inj_on counter (set fs)" and "\<forall>f\<in>set fs. counter f < cnt"
proof -
  have c: "map counter fs = [0..<cnt]"
    using assms by (simp add: collected_def)
  then have "distinct (map counter fs)" by simp
  then show "inj_on counter (set fs)" by (simp add: distinct_map)
  have "counter ` set fs = set [0..<cnt]"
    using c by (metis set_map)
  then show "\<forall>f\<in>set fs. counter f < cnt" by auto
qed

text \<open>What the deduplication keeps of the raw records, read off the returned fields.\<close>

lemma discarded_in_result:
  assumes coll: "collected (fs, cnt)"
    and x: "x \<in> set fs" and q: "q \<in> set fs" and same: "field_id q = field_id x"
    and before: "0 < parametersFirst x q"
  shows "counter x \<notin> counter ` set (result_fields (assemble num m fs cnt))"
proof
  let ?unique = "sortedFields num m fs"
  let ?added = "ensureFields (extractDependencies ?unique) (map field_caption ?unique) [] cnt"
  assume "counter x \<in> counter ` set (result_fields (assemble num m fs cnt))"
  then have "\<exists>s\<in>set ?unique \<union> set ?added. counter s = counter x"
    by (simp add: result_fields_assemble image_iff) metis
  then obtain s :: field where s: "s \<in> set ?unique \<union> set ?added" "counter s = counter x"
    by blast
  have small: "counter x < cnt"
    using collected_counters(2) [OF coll] x by simp
  have "s \<notin> set ?added"
  proof
    assume "s \<in> set ?added"
    then obtain rel :: relationship and c where "cnt \<le> c" "s = placeholder c (rel_from rel)"
      using ensureFields_form by blast
    then show False using s(2) small by simp
  qed
  then have "s \<in> set (uniqueFields (map (rewriteField m) fs))"
    using s(1) by (simp add: sortedFields_def)
  moreover then obtain x' :: field where x': "x' \<in> set fs" "s = rewriteField m x'"
    using set_uniqueFields_subset by fastforce
  moreover have "x' = x"
    using collected_counters(1) [OF coll] x x'(1) s(2) x'(2) by (auto dest: inj_onD)
  ultimately have "rewriteField m x \<in> set (uniqueFields (map (rewriteField m) fs))"
    by simp
  moreover have "rewriteField m x \<notin> set (uniqueFields (map (rewriteField m) fs))"
    by (rule dedup_loser [where q = "rewriteField m q"]) (use x q same before in simp_all)
  ultimately show False by simp
qed

lemma surviving_in_result:
  assumes coll: "collected (fs, cnt)"
    and p: "p \<in> set fs"
    and first: "\<forall>q\<in>set fs. field_id q = field_id p \<and> q \<noteq> p \<longrightarrow> 0 < parametersFirst q p"
  shows "rewriteField m p \<in> set (result_fields (assemble num m fs cnt))"
proof -
  have "rewriteField m p \<in> set (uniqueFields (map (rewriteField m) fs))"
  proof (rule dedup_winner)
    show "rewriteField m p \<in> set (map (rewriteField m) fs)"
      using p by simp
    show "\<forall>q\<in>set (map (rewriteField m) fs).
            field_id q = field_id (rewriteField m p) \<and> q \<noteq> rewriteField m p
            \<longrightarrow> 0 < parametersFirst q (rewriteField m p)"
      using first by auto
  qed
  then show ?thesis
    by (simp add: result_fields_assemble sortedFields_def)
qed

lemma parametersFirst_other:
  "datasource_name p = Some ''Parameters'' \<Longrightarrow> datasource_name x \<noteq> Some ''Parameters''
     \<Longrightarrow> parametersFirst x p = 1"
  by (simp add: parametersFirst_def)

lemma parametersFirst_same:
  "(datasource_name a = Some ''Parameters'') = (datasource_name b = Some ''Parameters'')
     \<Longrightarrow> parametersFirst a b = int (counter a) - int (counter b)"
  by (auto simp: parametersFirst_def)

text \<open>The first record of the datasource \<open>Parameters\<close> with a given id survives.\<close>

lemma first_parameters_survives:
  assumes coll: "collected (fs, cnt)"
    and p: "p \<in> set fs" "datasource_name p = Some ''Parameters''"
    and first: "\<forall>q\<in>set fs. datasource_name q = Some ''Parameters'' \<and> field_id q = field_id p
                  \<longrightarrow> counter p \<le> counter q"
  shows "rewriteField m p \<in> set (result_fields (assemble num m fs cnt))"
proof (rule surviving_in_result [OF coll p(1)], intro ballI impI)
  fix q assume q: "q \<in> set fs" "field_id q = field_id p \<and> q \<noteq> p"
  show "0 < parametersFirst q p"
  proof (cases "datasource_name q = Some ''Parameters''")
    case False
    then show ?thesis using parametersFirst_other [OF p(2)] by simp
  next
    case True
    then have "counter p \<le> counter q" using first q by simp
    moreover have "counter p \<noteq> counter q"
      using collected_counters(1) [OF coll] q p(1) by (auto dest: inj_onD)
    ultimately show ?thesis
      using True p(2) by (simp add: parametersFirst_same)
  qed
qed

section \<open>The rewriter, token by token\<close>

lemma of_char_canonicalize:
  "(of_char (canonicalize c) :: nat) =
     (if (97 \<le> (of_char c :: nat) \<and> (of_char c :: nat) \<le> 122)
         \<or> (224 \<le> (of_char c :: nat) \<and> (of_char c :: nat) \<le> 254 \<and> (of_char c :: nat) \<noteq> 247)
      then of_char c - 32 else of_char c)"
  by (auto simp: canonicalize_def Let_def)

lemma canonicalize_open [simp]: "(canonicalize c = CHR ''['') = (c = CHR ''['')"
proof -
  have "(canonicalize c = CHR ''['') = ((of_char (canonicalize c) :: nat) = of_char CHR ''['')"
    by (simp only: of_char_eq_iff)
  also have "\<dots> = ((of_char c :: nat) = of_char CHR ''['')"
    by (auto simp: of_char_canonicalize)
  also have "\<dots> = (c = CHR ''['')"
    by (simp only: of_char_eq_iff)
  finally show ?thesis .
qed

lemma canonicalize_close [simp]: "(canonicalize c = CHR '']'') = (c = CHR '']'')"
proof -
  have "(canonicalize c = CHR '']'') = ((of_char (canonicalize c) :: nat) = of_char CHR '']'')"
    by (simp only: of_char_eq_iff)
  also have "\<dots> = ((of_char c :: nat) = of_char CHR '']'')"
    by (auto simp: of_char_canonicalize)
  also have "\<dots> = (c = CHR '']'')"
    by (simp only: of_char_eq_iff)
  finally show ?thesis .
qed

lemma canonicalize_brackets [simp]:
  "canonicalize CHR ''['' = CHR ''[''" "canonicalize CHR '']'' = CHR '']''"
  using canonicalize_open [of "CHR ''[''"] canonicalize_close [of "CHR '']''"] by simp_all

lemma canonicalize_brackets_sym [simp]:
  "(CHR ''['' = canonicalize c) = (c = CHR ''['')" "(CHR '']'' = canonicalize c) = (c = CHR '']'')"
  by (metis canonicalize_open, metis canonicalize_close)

lemma no_bracket_canonicalize:
  "canonicalize x = canonicalize y \<Longrightarrow> no_bracket x = no_bracket y"
  by (metis canonicalize_close canonicalize_open no_bracket_def)

lemma plain_simps [simp]:
  "plain []" "plain (c # cs) = (no_bracket c \<and> plain cs)" "plain (a @ b) = (plain a \<and> plain b)"
  by (simp_all add: plain_def)

lemma no_bracket_simps [simp]: "\<not> no_bracket CHR ''[''" "\<not> no_bracket CHR '']''"
  by (simp_all add: no_bracket_def)

lemma span_plain [simp]:
  "plain body \<Longrightarrow> takeWhile no_bracket (body @ CHR '']'' # rest) = body"
  "plain body \<Longrightarrow> dropWhile no_bracket (body @ CHR '']'' # rest) = CHR '']'' # rest"
  "plain body \<Longrightarrow> takeWhile no_bracket (body @ CHR ''['' # rest) = body"
  "plain body \<Longrightarrow> dropWhile no_bracket (body @ CHR ''['' # rest) = CHR ''['' # rest"
  "plain body \<Longrightarrow> takeWhile no_bracket body = body"
  "plain body \<Longrightarrow> dropWhile no_bracket body = []"
  by (induction body) simp_all

lemma plain_takeWhile [simp]: "plain (takeWhile no_bracket cs)"
  by (induction cs) simp_all

lemma match_body:
  "plain k \<Longrightarrow> ci_prefix (k @ '']'') cs \<Longrightarrow>
     \<exists>body rest. cs = body @ CHR '']'' # rest \<and> ci_eq body k \<and> plain body
        \<and> length body = length k"
proof (induction k arbitrary: cs)
  case Nil
  then obtain d ds where "cs = d # ds" "d = CHR '']''"
    by (cases cs) auto
  then show ?case
    by (intro exI [of _ "[]"] exI [of _ ds]) (simp add: ci_eq_def)
next
  case (Cons x k)
  then obtain d ds where cs: "cs = d # ds" "canonicalize x = canonicalize d" "ci_prefix (k @ '']'') ds"
    by (cases cs) auto
  obtain body rest where b: "ds = body @ CHR '']'' # rest" "ci_eq body k" "plain body"
    "length body = length k"
    using Cons.IH [OF _ cs(3)] Cons.prems(1) by auto
  have "no_bracket d"
    using no_bracket_canonicalize [OF cs(2)] Cons.prems(1) by simp
  then show ?case
    using b cs by (intro exI [of _ "d # body"] exI [of _ rest]) (simp add: ci_eq_def)
qed

lemma body_match:
  "ci_eq body k \<Longrightarrow> ci_prefix (k @ '']'') (body @ CHR '']'' # rest)"
proof (induction k arbitrary: body)
  case Nil
  then show ?case by (simp add: ci_eq_def)
next
  case (Cons x k)
  then obtain d ds where "body = d # ds" "canonicalize d = canonicalize x" "ci_eq ds k"
    by (cases body) (auto simp: ci_eq_def)
  then show ?case using Cons.IH by simp
qed

lemma ci_prefix_bracketed:
  "ci_prefix (bracketed k) (c # cs) = (c = CHR ''['' \<and> ci_prefix (k @ '']'') cs)"
  by (auto simp: bracketed_def)

text \<open>A match of the pattern of a key without brackets is a token.\<close>

lemma match_is_token:
  assumes "plain k"
  shows "ci_prefix (bracketed k) (c # cs) =
           (c = CHR ''['' \<and> (\<exists>rest. dropWhile no_bracket cs = CHR '']'' # rest)
            \<and> ci_eq (takeWhile no_bracket cs) k)"
proof
  assume "ci_prefix (bracketed k) (c # cs)"
  then have c: "c = CHR ''[''" and "ci_prefix (k @ '']'') cs"
    by (simp_all add: ci_prefix_bracketed)
  then obtain body rest where "cs = body @ CHR '']'' # rest" "ci_eq body k" "plain body"
    using match_body [OF assms] by blast
  then show "c = CHR ''['' \<and> (\<exists>rest. dropWhile no_bracket cs = CHR '']'' # rest)
            \<and> ci_eq (takeWhile no_bracket cs) k"
    using c by simp
next
  assume a: "c = CHR ''['' \<and> (\<exists>rest. dropWhile no_bracket cs = CHR '']'' # rest)
            \<and> ci_eq (takeWhile no_bracket cs) k"
  then obtain rest where rest: "dropWhile no_bracket cs = CHR '']'' # rest" by blast
  have "cs = takeWhile no_bracket cs @ CHR '']'' # rest"
    using takeWhile_dropWhile_id [of no_bracket cs] rest by simp
  then have "ci_prefix (k @ '']'') cs"
    using body_match [of "takeWhile no_bracket cs" k rest] a by simp
  then show "ci_prefix (bracketed k) (c # cs)"
    using a by (simp add: ci_prefix_bracketed)
qed

lemma match_rest:
  assumes "plain k" and "ci_prefix (bracketed k) (c # cs)"
  shows "drop (Suc (length k)) cs = tl (dropWhile no_bracket cs)"
proof -
  have "ci_prefix (k @ '']'') cs"
    using assms(2) by (simp add: ci_prefix_bracketed)
  then obtain body rest where "cs = body @ CHR '']'' # rest" "plain body" "length body = length k"
    using match_body [OF assms(1)] by blast
  then show ?thesis by simp
qed

lemma tokmap_other:
  "c \<noteq> CHR ''['' \<Longrightarrow> tokmap g (c # s) = c # tokmap g s"
  by simp

lemma tokmap_no_token:
  assumes "\<not> (c = CHR ''['' \<and> closes cs)"
  shows "tokmap g (c # cs) = c # tokmap g cs"
  by (simp only: tokmap.simps(2) assms if_False)

lemma tokmap_at_token:
  "dropWhile no_bracket cs = CHR '']'' # rest
     \<Longrightarrow> tokmap g (CHR ''['' # cs) = bracketed (g (takeWhile no_bracket cs)) @ tokmap g rest"
  by (simp add: closes_def)

declare tokmap.simps(2) [simp del]

lemma tokmap_plain_prefix:
  "plain b \<Longrightarrow> tokmap g (b @ s) = b @ tokmap g s"
  by (induction b) (simp_all add: tokmap_other no_bracket_def)

lemma tokmap_token:
  "plain t \<Longrightarrow> tokmap g (bracketed t @ s) = bracketed (g t) @ tokmap g s"
  using tokmap_at_token [of "t @ CHR '']'' # s" s g] by (simp add: bracketed_def)

lemma closes_append_open [simp]: "closes (cs @ CHR ''['' # rest) = closes cs"
proof -
  have cs: "cs = takeWhile no_bracket cs @ dropWhile no_bracket cs" by simp
  show ?thesis
  proof (cases "dropWhile no_bracket cs")
    case Nil
    then have "plain cs" by (simp add: plain_def list_all_iff)
    then show ?thesis by (simp add: closes_def)
  next
    case (Cons d ds)
    then have "\<not> no_bracket d"
      by (metis hd_dropWhile list.distinct(1) list.sel(1))
    then have "dropWhile no_bracket (cs @ CHR ''['' # rest) = d # ds @ CHR ''['' # rest"
      using Cons by (metis append_Cons dropWhile_append1 dropWhile_eq_Nil_conv list.distinct(1)
          dropWhile_append3)
    then show ?thesis using Cons by (simp add: closes_def)
  qed
qed

lemma tokmap_head_open:
  "\<exists>r. tokmap g (CHR ''['' # cs) = CHR ''['' # r"
  by (cases "closes cs") (simp_all add: tokmap.simps(2) bracketed_def)

lemma closes_plain_prefix [simp]: "plain b \<Longrightarrow> closes (b @ s) = closes s"
  by (induction b) (simp_all add: closes_def)

lemma closes_heads [simp]:
  "closes []  = False" "closes (CHR '']'' # s) = True" "closes (CHR ''['' # s) = False"
  by (simp_all add: closes_def)

lemma closes_plain [simp]: "plain b \<Longrightarrow> closes b = False"
  using closes_plain_prefix [of b "[]"] by simp

lemma span_cases:
  obtains "plain cs"
  | body rest where "cs = body @ CHR '']'' # rest" "plain body"
  | body rest where "cs = body @ CHR ''['' # rest" "plain body"
proof (cases "dropWhile no_bracket cs")
  case Nil
  then have "plain cs" by (simp add: plain_def list_all_iff)
  then show ?thesis by (rule that(1))
next
  case (Cons d ds)
  then have d: "\<not> no_bracket d"
    by (metis hd_dropWhile list.distinct(1) list.sel(1))
  have cs: "cs = takeWhile no_bracket cs @ d # ds"
    using takeWhile_dropWhile_id [of no_bracket cs] Cons by simp
  show ?thesis
  proof (cases "d = CHR '']''")
    case True
    then show ?thesis using cs that(2) [of "takeWhile no_bracket cs" ds] by simp
  next
    case False
    then have "d = CHR ''[''" using d by (simp add: no_bracket_def)
    then show ?thesis using cs that(3) [of "takeWhile no_bracket cs" ds] by simp
  qed
qed

lemma closes_tokmap [simp]: "closes (tokmap g cs) = closes cs"
proof (cases cs rule: span_cases)
  case 1
  then show ?thesis using tokmap_plain_prefix [of cs g "[]"] by simp
next
  case (2 body rest)
  then show ?thesis by (simp add: tokmap_plain_prefix tokmap_other)
next
  case (3 body rest)
  then show ?thesis
    using tokmap_head_open [of g rest] by (auto simp: tokmap_plain_prefix)
qed


lemma tokmap_cong:
  "(\<And>t. plain t \<Longrightarrow> f t = g t) \<Longrightarrow> tokmap f s = tokmap g s"
proof (induction f s rule: tokmap.induct)
  case (1 f)
  then show ?case by simp
next
  case (2 f c cs)
  show ?case
  proof (cases "c = CHR ''['' \<and> closes cs")
    case False
    then show ?thesis
      using 2(2) [OF False] 2(3) tokmap_no_token [OF False] by simp
  next
    case True
    then obtain r where r: "dropWhile no_bracket cs = CHR '']'' # r"
      by (auto simp: closes_def split: list.splits)
    have "f (takeWhile no_bracket cs) = g (takeWhile no_bracket cs)"
      using 2(3) by simp
    then show ?thesis
      using 2(1) [OF True] 2(3) True r tokmap_at_token [OF r] by simp
  qed
qed

lemma tokmap_id [simp]: "tokmap (\<lambda>t. t) s = s"
proof (induction "\<lambda>t :: string. t" s rule: tokmap.induct)
  case 1
  then show ?case by simp
next
  case (2 c cs)
  show ?case
  proof (cases "c = CHR ''['' \<and> closes cs")
    case False
    then show ?thesis
      using 2(2) [OF False] tokmap_no_token [OF False] by simp
  next
    case True
    then obtain r where r: "dropWhile no_bracket cs = CHR '']'' # r"
      by (auto simp: closes_def split: list.splits)
    have "cs = takeWhile no_bracket cs @ CHR '']'' # r"
      using takeWhile_dropWhile_id [of no_bracket cs] r by simp
    then show ?thesis
      using 2(1) [OF True] True r tokmap_at_token [OF r, of "\<lambda>t. t"]
      by (simp add: bracketed_def)
  qed
qed

lemma slice_bracketed [simp]: "slice_1_m1 (bracketed t) = t"
  by (simp add: slice_1_m1_def bracketed_def)

lemma bracketed_inject [simp]: "(bracketed a = bracketed b) = (a = b)"
  by (simp add: bracketed_def)


text \<open>
  What a replacement stands for: itself when it is literal, and a text that depends on
  the match only, and is in brackets when the replacement is, when it is free of
  context.
\<close>

lemma getSubstitution_literal:
  "literal t \<Longrightarrow> getSubstitution matched passed rest t = t"
  by (induction matched passed rest t rule: getSubstitution.induct) auto

lemma literal_context_free: "literal t \<Longrightarrow> context_free t"
  by (induction t rule: context_free.induct) auto

lemma getSubstitution_expansion:
  "context_free t \<Longrightarrow> getSubstitution matched passed rest t = expansion matched t"
  unfolding expansion_def
  by (induction matched passed rest t rule: getSubstitution.induct) auto

lemma expansion_literal: "literal t \<Longrightarrow> expansion matched t = t"
  by (simp add: expansion_def getSubstitution_literal)

lemma getSubstitution_close:
  "\<exists>y. getSubstitution matched passed rest (x @ [CHR '']'']) = y @ [CHR '']'']"
proof (induction x rule: length_induct)
  case (1 x)
  show ?case
  proof (cases x)
    case Nil
    then show ?thesis by simp
  next
    case (Cons c x')
    show ?thesis
    proof (cases x')
      case Nil
      then show ?thesis using Cons by simp
    next
      case (Cons d r)
      obtain y where y: "getSubstitution matched passed rest (r @ [CHR '']'']) = y @ [CHR '']'']"
        using 1 \<open>x = c # x'\<close> Cons by force
      obtain z where z: "getSubstitution matched passed rest (x' @ [CHR '']'']) = z @ [CHR '']'']"
        using 1 \<open>x = c # x'\<close> by force
      show ?thesis
        using y z \<open>x = c # x'\<close> Cons by auto
    qed
  qed
qed

lemma expansion_bracketed:
  "\<exists>y. expansion matched (bracketed n) = bracketed y"
proof -
  obtain y where "getSubstitution matched [] [] (n @ [CHR '']'']) = y @ [CHR '']'']"
    using getSubstitution_close by blast
  moreover have "getSubstitution matched [] [] (CHR ''['' # n @ [CHR '']''])
      = CHR ''['' # getSubstitution matched [] [] (n @ [CHR '']''])"
    by (cases "n @ [CHR '']'']") simp_all
  ultimately show ?thesis
    by (simp add: expansion_def bracketed_def)
qed

lemma regex_replace_subst:
  "context_free r \<Longrightarrow> regex_replace k r passed s = subst k (\<lambda>matched. expansion matched r) s"
  by (induction k r passed s rule: regex_replace.induct)
     (simp_all add: getSubstitution_expansion)

lemma subst_other:
  "c \<noteq> CHR ''['' \<Longrightarrow> subst k f (c # s) = c # subst k f s"
  by (simp add: ci_prefix_bracketed)

lemma subst_plain_prefix:
  "plain b \<Longrightarrow> subst k f (b @ s) = b @ subst k f s"
  by (induction b) (simp_all add: subst_other no_bracket_def del: subst.simps)

lemma match_text:
  assumes "plain k" and "ci_prefix (bracketed k) (c # cs)"
  shows "c # take (Suc (length k)) cs = bracketed (takeWhile no_bracket cs)"
proof -
  have "ci_prefix (k @ '']'') cs" and c: "c = CHR ''[''"
    using assms(2) by (simp_all add: ci_prefix_bracketed)
  then obtain body rest where "cs = body @ CHR '']'' # rest" "plain body" "length body = length k"
    using match_body [OF assms(1)] by blast
  then show ?thesis using c by (simp add: bracketed_def)
qed

text \<open>One key of the rewriter, token by token.\<close>

lemma subst_tokmap:
  assumes "plain k" and wr: "\<And>t. plain t \<Longrightarrow> f (bracketed t) = bracketed (g t)"
  shows "subst k f s = tokmap (\<lambda>t. if ci_eq t k then g t else t) s"
proof (induction "\<lambda>t. if ci_eq t k then g t else t" s rule: tokmap.induct)
  case 1
  then show ?case by simp
next
  case (2 c cs)
  let ?g = "\<lambda>t. if ci_eq t k then g t else t"
  let ?token = "c = CHR ''['' \<and> closes cs"
  show ?case
  proof (cases ?token)
    case False
    then have "\<not> ci_prefix (bracketed k) (c # cs)"
      by (auto simp: match_is_token [OF assms(1)] closes_def)
    then have "subst k f (c # cs) = c # subst k f cs"
      by simp
    then show ?thesis
      using 2(2) [OF False] tokmap_no_token [OF False, of ?g] by simp
  next
    case True
    then obtain rest where rest: "dropWhile no_bracket cs = CHR '']'' # rest"
      by (auto simp: closes_def split: list.splits)
    let ?body = "takeWhile no_bracket cs"
    have cs: "cs = ?body @ CHR '']'' # rest"
      using takeWhile_dropWhile_id [of no_bracket cs] rest by simp
    have IH: "subst k f rest = tokmap ?g rest"
      using 2(1) True rest by simp
    have tok: "tokmap ?g (c # cs) = bracketed (?g ?body) @ tokmap ?g rest"
      using True tokmap_at_token [OF rest, of ?g] by simp
    show ?thesis
    proof (cases "ci_eq ?body k")
      case eq: True
      then have m: "ci_prefix (bracketed k) (c # cs)"
        using True rest by (simp add: match_is_token [OF assms(1)])
      have "drop (Suc (length k)) cs = rest"
        using match_rest [OF assms(1) m] rest by simp
      moreover have "f (c # take (Suc (length k)) cs) = bracketed (g ?body)"
        using match_text [OF assms(1) m] wr [of ?body] by simp
      ultimately have "subst k f (c # cs) = bracketed (g ?body) @ subst k f rest"
        using m by simp
      then show ?thesis
        using IH tok eq by simp
    next
      case ne: False
      then have m: "\<not> ci_prefix (bracketed k) (c # cs)"
        by (simp add: match_is_token [OF assms(1)])
      have "subst k f (c # cs) = c # subst k f (?body @ CHR '']'' # rest)"
        using m cs by simp
      also have "\<dots> = c # ?body @ CHR '']'' # subst k f rest"
        by (simp add: subst_plain_prefix subst_other del: subst.simps)
      also have "\<dots> = bracketed ?body @ tokmap ?g rest"
        using True IH by (simp add: bracketed_def)
      finally show ?thesis
        using tok ne by simp
    qed
  qed
qed

text \<open>
  A token ends at its closing bracket: what stands behind a closing bracket does not
  change the tokens before it.
\<close>

lemma closes_append_other:
  assumes "\<not> plain cs"
  shows "closes (cs @ x) = closes cs"
proof (cases cs rule: span_cases)
  case 1
  then show ?thesis using assms by simp
next
  case (2 body rest)
  then show ?thesis by simp
next
  case (3 body rest)
  then show ?thesis by simp
qed

lemma tokmap_close_split:
  "tokmap g (a @ CHR '']'' # b) = tokmap g (a @ [CHR '']'']) @ tokmap g b"
proof (induction g a rule: tokmap.induct)
  case (1 g)
  then show ?case by (simp add: tokmap_other)
next
  case (2 g c cs)
  show ?case
  proof (cases "c = CHR ''['' \<and> closes cs")
    case True
    then obtain r where r: "dropWhile no_bracket cs = CHR '']'' # r"
      by (auto simp: closes_def split: list.splits)
    let ?body = "takeWhile no_bracket cs"
    have cs: "cs = ?body @ CHR '']'' # r"
      using takeWhile_dropWhile_id [of no_bracket cs] r by simp
    have d: "dropWhile no_bracket (cs @ x) = CHR '']'' # r @ x"
      and t: "takeWhile no_bracket (cs @ x) = ?body" for x
      by (subst (1) cs, simp)+
    have "tokmap g ((c # cs) @ CHR '']'' # b)
        = bracketed (g ?body) @ tokmap g (r @ CHR '']'' # b)"
      using True tokmap_at_token [OF d [of "CHR '']'' # b"], of g] t by simp
    moreover have "tokmap g ((c # cs) @ [CHR '']''])
        = bracketed (g ?body) @ tokmap g (r @ [CHR '']''])"
      using True tokmap_at_token [OF d [of "[CHR '']'']"], of g] t by simp
    moreover have "tokmap g (r @ CHR '']'' # b) = tokmap g (r @ [CHR '']'']) @ tokmap g b"
      using 2(1) [OF True] r by simp
    ultimately show ?thesis by simp
  next
    case False
    show ?thesis
    proof (cases "c = CHR ''['' \<and> plain cs")
      case True
      then have "tokmap g ((c # cs) @ CHR '']'' # b) = bracketed (g cs) @ tokmap g b"
        and "tokmap g ((c # cs) @ [CHR '']'']) = bracketed (g cs)"
        using tokmap_token [of cs g b] tokmap_token [of cs g "[]"]
        by (simp_all add: bracketed_def)
      then show ?thesis by simp
    next
      case np: False
      have "\<not> (c = CHR ''['' \<and> closes (cs @ x))" for x
        using False np closes_append_other [of cs x] by auto
      then have "tokmap g ((c # cs) @ CHR '']'' # b) = c # tokmap g (cs @ CHR '']'' # b)"
        and "tokmap g ((c # cs) @ [CHR '']'']) = c # tokmap g (cs @ [CHR '']''])"
        using tokmap_no_token by simp_all
      then show ?thesis
        using 2(2) [OF False] by simp
    qed
  qed
qed

lemma tokmap_last_close:
  "\<exists>y. tokmap g (a @ [CHR '']'']) = y @ [CHR '']'']"
proof (induction g a rule: tokmap.induct)
  case (1 g)
  then show ?case by (simp add: tokmap_other)
next
  case (2 g c cs)
  show ?case
  proof (cases "c = CHR ''['' \<and> closes cs")
    case True
    then obtain r where r: "dropWhile no_bracket cs = CHR '']'' # r"
      by (auto simp: closes_def split: list.splits)
    let ?body = "takeWhile no_bracket cs"
    have cs: "cs = ?body @ CHR '']'' # r"
      using takeWhile_dropWhile_id [of no_bracket cs] r by simp
    have d: "dropWhile no_bracket (cs @ x) = CHR '']'' # r @ x"
      and t: "takeWhile no_bracket (cs @ x) = ?body" for x
      by (subst (1) cs, simp)+
    have "tokmap g ((c # cs) @ [CHR '']''])
        = bracketed (g ?body) @ tokmap g (r @ [CHR '']''])"
      using True tokmap_at_token [OF d [of "[CHR '']'']"], of g] t by simp
    moreover obtain y where "tokmap g (r @ [CHR '']'']) = y @ [CHR '']'']"
      using 2(1) [OF True] r by auto
    ultimately show ?thesis by simp
  next
    case False
    show ?thesis
    proof (cases "c = CHR ''['' \<and> plain cs")
      case True
      then have "tokmap g ((c # cs) @ [CHR '']'']) = bracketed (g cs)"
        using tokmap_token [of cs g "[]"] by (simp add: bracketed_def)
      then show ?thesis by (simp add: bracketed_def)
    next
      case np: False
      have "\<not> (c = CHR ''['' \<and> closes (cs @ [CHR '']'']))"
        using False np closes_append_other [of cs "[CHR '']'']"] by auto
      then have "tokmap g ((c # cs) @ [CHR '']'']) = c # tokmap g (cs @ [CHR '']''])"
        using tokmap_no_token by simp
      then show ?thesis
        using 2(2) [OF False] by auto
    qed
  qed
qed

lemma tokmap_bracketed:
  "tokmap g (bracketed x) = bracketed (slice_1_m1 (tokmap g (bracketed x)))"
proof -
  obtain y where y: "tokmap g ((CHR ''['' # x) @ [CHR '']'']) = y @ [CHR '']'']"
    using tokmap_last_close by blast
  obtain r where r: "tokmap g (CHR ''['' # x @ [CHR '']'']) = CHR ''['' # r"
    using tokmap_head_open by blast
  from y r obtain y' where "y = CHR ''['' # y'"
    by (cases y) auto
  then have "tokmap g (bracketed x) = bracketed y'"
    using y by (simp add: bracketed_def)
  then show ?thesis by simp
qed

lemma tokmap_bracketed_split:
  "tokmap g (bracketed x @ s) = tokmap g (bracketed x) @ tokmap g s"
  using tokmap_close_split [of g "CHR ''['' # x" s] by (simp add: bracketed_def)

text \<open>Two passes over the tokens, the second over what the first put in.\<close>

lemma tokmap_compose:
  "tokmap h (tokmap g s) = tokmap (\<lambda>t. slice_1_m1 (tokmap h (bracketed (g t)))) s"
proof (induction g s rule: tokmap.induct)
  case (1 g)
  then show ?case by simp
next
  case (2 g c cs)
  let ?hg = "\<lambda>t. slice_1_m1 (tokmap h (bracketed (g t)))"
  show ?case
  proof (cases "c = CHR ''['' \<and> closes cs")
    case False
    then have "\<not> (c = CHR ''['' \<and> closes (tokmap g cs))" by simp
    then have "tokmap h (c # tokmap g cs) = c # tokmap h (tokmap g cs)"
      by (rule tokmap_no_token)
    then show ?thesis
      using 2(2) [OF False] tokmap_no_token [OF False] by simp
  next
    case True
    then obtain r where r: "dropWhile no_bracket cs = CHR '']'' # r"
      by (auto simp: closes_def split: list.splits)
    let ?body = "takeWhile no_bracket cs"
    have "tokmap g (c # cs) = bracketed (g ?body) @ tokmap g r"
      using True tokmap_at_token [OF r] by simp
    moreover have "tokmap h (bracketed (g ?body) @ tokmap g r)
        = bracketed (?hg ?body) @ tokmap h (tokmap g r)"
      using tokmap_bracketed_split [of h "g ?body"] tokmap_bracketed [of h "g ?body"] by simp
    moreover have "tokmap h (tokmap g r) = tokmap ?hg r"
      using 2(1) [OF True] r by simp
    moreover have "tokmap ?hg (c # cs) = bracketed (?hg ?body) @ tokmap ?hg r"
      using True tokmap_at_token [OF r] by simp
    ultimately show ?thesis by simp
  qed
qed

text \<open>The tokens of a string decide what \<open>tokmap\<close> does to it.\<close>

lemma tokens_no_token:
  assumes "\<not> (c = CHR ''['' \<and> closes cs)"
  shows "tokens (c # cs) = tokens cs"
  by (simp only: tokens.simps(2) assms if_False)

lemma tokens_at_token:
  "dropWhile no_bracket cs = CHR '']'' # rest
     \<Longrightarrow> tokens (CHR ''['' # cs) = takeWhile no_bracket cs # tokens rest"
  by (simp add: closes_def)

declare tokens.simps(2) [simp del]

lemma tokens_plain: "t \<in> set (tokens s) \<Longrightarrow> plain t"
proof (induction s rule: tokens.induct)
  case 1
  then show ?case by simp
next
  case (2 c cs)
  show ?case
  proof (cases "c = CHR ''['' \<and> closes cs")
    case False
    then show ?thesis
      using 2(2) [OF False] 2(3) tokens_no_token [OF False] by simp
  next
    case True
    then obtain r where r: "dropWhile no_bracket cs = CHR '']'' # r"
      by (auto simp: closes_def split: list.splits)
    then show ?thesis
      using 2(1) [OF True] 2(3) True tokens_at_token [OF r] by auto
  qed
qed

lemma tokmap_cong_tokens:
  "(\<And>t. t \<in> set (tokens s) \<Longrightarrow> f t = g t) \<Longrightarrow> tokmap f s = tokmap g s"
proof (induction f s rule: tokmap.induct)
  case (1 f)
  then show ?case by simp
next
  case (2 f c cs)
  show ?case
  proof (cases "c = CHR ''['' \<and> closes cs")
    case False
    then show ?thesis
      using 2(2) [OF False] 2(3) tokmap_no_token [OF False] tokens_no_token [OF False] by simp
  next
    case True
    then obtain r where r: "dropWhile no_bracket cs = CHR '']'' # r"
      by (auto simp: closes_def split: list.splits)
    have tk: "tokens (c # cs) = takeWhile no_bracket cs # tokens r"
      using True tokens_at_token [OF r] by simp
    have "f (takeWhile no_bracket cs) = g (takeWhile no_bracket cs)"
      using 2(3) tk by simp
    moreover have "tokmap f r = tokmap g r"
      using 2(1) [OF True] 2(3) r tk by simp
    ultimately show ?thesis
      using True tokmap_at_token [OF r] by simp
  qed
qed

lemma tokmap_nonempty: "s \<noteq> [] \<Longrightarrow> tokmap g s \<noteq> []"
  by (cases s) (simp_all add: tokmap.simps(2) bracketed_def)

text \<open>
  No string is a text that ends with a closing bracket followed by the string with
  its tokens replaced.
\<close>

lemma tokmap_no_fixpoint:
  "r \<noteq> [] \<Longrightarrow> last r = CHR '']'' \<Longrightarrow> r @ tokmap g x \<noteq> x"
proof (induction x arbitrary: r rule: length_induct)
  case (1 x)
  show ?case
  proof
    assume eq: "r @ tokmap g x = x"
    let ?y = "tokmap g x"
    obtain r0 where r: "r = r0 @ [CHR '']'']"
      using 1(2,3) by (metis append_butlast_last_id)
    have "?y = tokmap g (r @ ?y)"
      using eq by simp
    also have "\<dots> = tokmap g r @ tokmap g ?y"
      using tokmap_close_split [of g r0 ?y] r by simp
    finally have y: "tokmap g r @ tokmap g ?y = ?y"
      by simp
    have "length ?y < length x"
      using arg_cong [OF eq, of length] 1(2) by (cases r) simp_all
    moreover have "tokmap g r \<noteq> []"
      using 1(2) by (rule tokmap_nonempty)
    moreover have "last (tokmap g r) = CHR '']''"
      using tokmap_last_close [of g r0] r by auto
    ultimately show False
      using 1(1) y by blast
  qed
qed

text \<open>When replacing the tokens leaves a string as it is, every token stays as it is.\<close>

lemma fixed_tokens:
  "tokmap g s = s \<Longrightarrow> t \<in> set (tokens s) \<Longrightarrow> g t = t"
proof (induction g s rule: tokmap.induct)
  case (1 g)
  then show ?case by simp
next
  case (2 g c cs)
  show ?case
  proof (cases "c = CHR ''['' \<and> closes cs")
    case False
    then show ?thesis
      using 2(2) [OF False] 2(3,4) tokmap_no_token [OF False] tokens_no_token [OF False] by simp
  next
    case True
    then obtain r where r: "dropWhile no_bracket cs = CHR '']'' # r"
      by (auto simp: closes_def split: list.splits)
    let ?body = "takeWhile no_bracket cs"
    have cs: "cs = ?body @ CHR '']'' # r"
      using takeWhile_dropWhile_id [of no_bracket cs] r by simp
    have tk: "tokens (c # cs) = ?body # tokens r"
      using True tokens_at_token [OF r] by simp
    have "bracketed (g ?body) @ tokmap g r = c # cs"
      using 2(3) True tokmap_at_token [OF r, of g] by simp
    then have eq: "g ?body @ CHR '']'' # tokmap g r = ?body @ CHR '']'' # r"
      using True by (subst (asm) cs) (simp add: bracketed_def)
    have body: "g ?body = ?body"
    proof (cases "g ?body" rule: span_cases)
      case 1
      then have "takeWhile no_bracket (g ?body @ CHR '']'' # tokmap g r) = g ?body"
        by simp
      then show ?thesis
        using eq by simp
    next
      case (2 n1 n2)
      then have "takeWhile no_bracket (g ?body @ CHR '']'' # tokmap g r) = n1"
        by simp
      then have n1: "n1 = ?body"
        using eq by simp
      then have "(n2 @ [CHR '']'']) @ tokmap g r = r"
        using eq 2 by simp
      then show ?thesis
        using tokmap_no_fixpoint [of "n2 @ [CHR '']'']" g r] by simp
    next
      case (3 n1 n2)
      then have "takeWhile no_bracket (g ?body @ CHR '']'' # tokmap g r) = n1"
        by simp
      then have n1: "n1 = ?body"
        using eq by simp
      then show ?thesis
        using eq 3 by simp
    qed
    then have "tokmap g r = r"
      using eq by simp
    then show ?thesis
      using 2(1) [OF True] 2(4) r tk body by auto
  qed
qed

text \<open>The rewriter on a map whose replacements are free of context.\<close>

lemma clean_map_entry:
  assumes "clean_map m" and "map_of m k = Some v"
  shows "plain k" and "v = bracketed (slice_1_m1 v)" and "context_free v"
proof -
  have "(k, v) \<in> set m" using assms(2) by (rule map_of_SomeD)
  then have "plain k \<and> v = bracketed (slice_1_m1 v) \<and> context_free v"
    using assms(1) by (auto simp: clean_map_def resolver_map_def list_all_iff)
  then show "plain k" and "v = bracketed (slice_1_m1 v)" and "context_free v"
    by blast+
qed

lemma expansion_wrapped:
  assumes "v = bracketed (slice_1_m1 v)"
  shows "expansion matched v = bracketed (slice_1_m1 (expansion matched v))"
proof -
  obtain y where "expansion matched (bracketed (slice_1_m1 v)) = bracketed y"
    using expansion_bracketed by blast
  then show ?thesis using assms by simp
qed

lemma replaceKey_tokmap:
  assumes "clean_map m"
  shows "replaceKey m k s = tokmap (tok_step m k) s"
proof (cases "map_of m k")
  case None
  then have "tok_step m k = (\<lambda>t. t)"
    by (intro ext) (simp add: tok_step_def)
  then show ?thesis using None by (simp add: replaceKey_def)
next
  case (Some v)
  note e = clean_map_entry [OF assms Some]
  have "v \<noteq> []"
    by (subst e(2)) (simp add: bracketed_def)
  then have "replaceKey m k s = subst k (\<lambda>matched. expansion matched v) s"
    using Some e(3) by (simp add: replaceKey_def regex_replace_subst)
  also have "\<dots> = tokmap (\<lambda>t. if ci_eq t k then slice_1_m1 (expansion (bracketed t) v) else t) s"
    by (rule subst_tokmap [OF e(1)]) (rule expansion_wrapped [OF e(2)])
  also have "\<dots> = tokmap (tok_step m k) s"
    by (rule tokmap_cong) (simp add: tok_step_def Some)
  finally show ?thesis .
qed

lemma replaceKey_token:
  assumes "clean_map m" and "plain t"
  shows "replaceKey m k (bracketed t) = bracketed (tok_step m k t)"
  using tokmap_token [OF assms(2), of "tok_step m k" "[]"] replaceKey_tokmap [OF assms(1)]
  by simp

lemma fold_replaceKey_tokmap:
  assumes "clean_map m"
  shows "fold (replaceKey m) ks s
           = tokmap (\<lambda>t. slice_1_m1 (fold (replaceKey m) ks (bracketed t))) s"
proof (induction ks arbitrary: s)
  case Nil
  then show ?case by simp
next
  case (Cons k ks)
  let ?T = "\<lambda>t. slice_1_m1 (fold (replaceKey m) ks (bracketed t))"
  have "fold (replaceKey m) (k # ks) s = fold (replaceKey m) ks (tokmap (tok_step m k) s)"
    by (simp add: replaceKey_tokmap [OF assms])
  also have "\<dots> = tokmap ?T (tokmap (tok_step m k) s)"
    by (rule Cons.IH)
  also have "\<dots> = tokmap (\<lambda>t. slice_1_m1 (tokmap ?T (bracketed (tok_step m k t)))) s"
    by (rule tokmap_compose)
  also have "\<dots> = tokmap (\<lambda>t. slice_1_m1 (fold (replaceKey m) ks (bracketed (tok_step m k t)))) s"
    using Cons.IH [symmetric] by simp
  also have "\<dots> = tokmap (\<lambda>t. slice_1_m1 (fold (replaceKey m) (k # ks) (bracketed t))) s"
    by (rule tokmap_cong) (simp add: replaceKey_token [OF assms])
  finally show ?case .
qed

text \<open>
  The rewriter replaces every token by what it makes of the token alone, and changes
  nothing else; what it makes of a text in brackets is a text in brackets.
\<close>

lemma rewriteFormula_tokmap:
  assumes "clean_map m"
  shows "rewriteFormula m s = tokmap (tok_rewrite m) s"
proof -
  have "tok_rewrite m = (\<lambda>t. slice_1_m1 (fold (replaceKey m) (sortedKeys m) (bracketed t)))"
    by (intro ext) (simp add: tok_rewrite_def rewriteFormula_def)
  then show ?thesis
    using fold_replaceKey_tokmap [OF assms, of "sortedKeys m" s] by (simp add: rewriteFormula_def)
qed

lemma fold_replaceKey_bracketed:
  assumes "clean_map m"
  shows "fold (replaceKey m) ks (bracketed x)
           = bracketed (slice_1_m1 (fold (replaceKey m) ks (bracketed x)))"
  by (subst (1 2) fold_replaceKey_tokmap [OF assms]) (rule tokmap_bracketed)

lemma rewriteFormula_bracketed:
  assumes "clean_map m"
  shows "rewriteFormula m (bracketed x) = bracketed (tok_rewrite m x)"
  using fold_replaceKey_bracketed [OF assms, of "sortedKeys m" x]
  by (simp add: tok_rewrite_def rewriteFormula_def)

text \<open>
  A text in brackets that the rewriter leaves as it is stays such a text under every
  key, when the replacements are literal and the rewriter leaves each as it is.
\<close>

lemma tok_step_literal:
  assumes "\<forall>(k, v)\<in>set m. literal v"
  shows "tok_step m k t = t \<or> (\<exists>v. (k, v) \<in> set m \<and> tok_step m k t = slice_1_m1 v)"
proof (cases "map_of m k")
  case None
  then show ?thesis by (simp add: tok_step_def)
next
  case (Some v)
  then have in_m: "(k, v) \<in> set m" by (rule map_of_SomeD)
  then have "literal v" using assms by auto
  then show ?thesis
    using Some in_m by (auto simp: tok_step_def expansion_literal)
qed

lemma replaceKey_fixed:
  assumes cm: "clean_map m"
    and lit: "\<forall>(k, v)\<in>set m. literal v"
    and fixed: "\<forall>(k, v)\<in>set m. rewriteFormula m v = v"
    and w: "rewriteFormula m (bracketed x) = bracketed x"
  shows "rewriteFormula m (replaceKey m k (bracketed x)) = replaceKey m k (bracketed x)"
proof -
  let ?R = "tok_rewrite m"
  let ?w = "bracketed x"
  have "tokmap ?R ?w = ?w"
    using w rewriteFormula_tokmap [OF cm] by simp
  then have tok: "?R t = t" if "t \<in> set (tokens ?w)" for t
    using that by (rule fixed_tokens)
  have step: "slice_1_m1 (tokmap ?R (bracketed (tok_step m k t))) = tok_step m k t"
    if "t \<in> set (tokens ?w)" for t
  proof -
    consider "tok_step m k t = t"
      | v where "(k, v) \<in> set m" "tok_step m k t = slice_1_m1 v"
      using tok_step_literal [OF lit, of k t] by blast
    then show ?thesis
    proof cases
      case 1
      have "tokmap ?R (bracketed t) = bracketed (?R t)"
        using rewriteFormula_bracketed [OF cm, of t] rewriteFormula_tokmap [OF cm] by simp
      then show ?thesis using 1 tok [OF that] by simp
    next
      case 2
      have v: "v = bracketed (slice_1_m1 v)"
        using cm 2(1) by (auto simp: clean_map_def resolver_map_def list_all_iff)
      have "rewriteFormula m v = v"
        using fixed 2(1) by auto
      then have "tokmap ?R (bracketed (slice_1_m1 v)) = bracketed (slice_1_m1 v)"
        using v rewriteFormula_tokmap [OF cm] by simp
      then show ?thesis using 2(2) by simp
    qed
  qed
  have "rewriteFormula m (replaceKey m k ?w) = tokmap ?R (tokmap (tok_step m k) ?w)"
    by (simp add: rewriteFormula_tokmap [OF cm] replaceKey_tokmap [OF cm])
  also have "\<dots> = tokmap (\<lambda>t. slice_1_m1 (tokmap ?R (bracketed (tok_step m k t)))) ?w"
    by (rule tokmap_compose)
  also have "\<dots> = tokmap (tok_step m k) ?w"
    by (rule tokmap_cong_tokens) (rule step)
  finally show ?thesis
    by (simp add: replaceKey_tokmap [OF cm])
qed

lemma fold_replaceKey_fixed:
  assumes cm: "clean_map m"
    and lit: "\<forall>(k, v)\<in>set m. literal v"
    and fixed: "\<forall>(k, v)\<in>set m. rewriteFormula m v = v"
  shows "rewriteFormula m (bracketed x) = bracketed x
     \<Longrightarrow> rewriteFormula m (fold (replaceKey m) ks (bracketed x))
           = fold (replaceKey m) ks (bracketed x)"
proof (induction ks arbitrary: x)
  case Nil
  then show ?case by simp
next
  case (Cons k ks)
  let ?x = "slice_1_m1 (replaceKey m k (bracketed x))"
  have b: "replaceKey m k (bracketed x) = bracketed ?x"
    using tokmap_bracketed [of "tok_step m k" x] replaceKey_tokmap [OF cm] by simp
  have "rewriteFormula m (bracketed ?x) = bracketed ?x"
    using replaceKey_fixed [OF cm lit fixed Cons.prems, of k] b by simp
  then have "rewriteFormula m (fold (replaceKey m) ks (bracketed ?x))
      = fold (replaceKey m) ks (bracketed ?x)"
    by (rule Cons.IH)
  then show ?case
    using b by simp
qed

lemma fold_token_cases:
  assumes cm: "clean_map m"
    and lit: "\<forall>(k, v)\<in>set m. literal v"
    and fixed: "\<forall>(k, v)\<in>set m. rewriteFormula m v = v"
    and t: "plain t"
  shows "fold (replaceKey m) ks (bracketed t) = bracketed t
     \<or> rewriteFormula m (fold (replaceKey m) ks (bracketed t))
         = fold (replaceKey m) ks (bracketed t)"
proof (induction ks)
  case Nil
  then show ?case by simp
next
  case (Cons k ks)
  have step: "replaceKey m k (bracketed t) = bracketed (tok_step m k t)"
    by (rule replaceKey_token [OF cm t])
  consider "tok_step m k t = t"
    | v where "(k, v) \<in> set m" "tok_step m k t = slice_1_m1 v"
    using tok_step_literal [OF lit, of k t] by blast
  then show ?case
  proof cases
    case 1
    then show ?thesis using Cons.IH step by simp
  next
    case 2
    have v: "v = bracketed (slice_1_m1 v)"
      using cm 2(1) by (auto simp: clean_map_def resolver_map_def list_all_iff)
    have "rewriteFormula m v = v"
      using fixed 2(1) by auto
    then have "rewriteFormula m (bracketed (slice_1_m1 v)) = bracketed (slice_1_m1 v)"
      using v by simp
    then have "rewriteFormula m (fold (replaceKey m) ks (bracketed (slice_1_m1 v)))
        = fold (replaceKey m) ks (bracketed (slice_1_m1 v))"
      by (rule fold_replaceKey_fixed [OF cm lit fixed])
    then show ?thesis
      using step 2(2) by simp
  qed
qed

lemma literal_clean_map:
  assumes "resolver_map m" and "\<forall>(k, v)\<in>set m. literal v"
  shows "clean_map m"
  using assms by (auto simp: clean_map_def list_all_iff literal_context_free)



text \<open>Every map that the identity resolver builds has this form.\<close>

lemma plain_stripBrackets: "plain (stripBrackets s)"
  by (induction s) (simp_all add: stripBrackets_def no_bracket_def)

lemma friendlyName_bracketed: "friendlyName f = bracketed (slice_1_m1 (friendlyName f))"
  by (simp add: friendlyName_def bracketed_def slice_1_m1_def)

lemma resolver_map_set:
  "resolver_map m \<Longrightarrow> plain k \<Longrightarrow> v = bracketed (slice_1_m1 v) \<Longrightarrow> resolver_map (map_set k v m)"
  by (induction m) (auto simp: resolver_map_def)

lemma buildCalcMap_resolver_map:
  "buildCalcMap fs m0 = Inr m \<Longrightarrow> resolver_map m0 \<Longrightarrow> resolver_map m"
proof (induction fs arbitrary: m0)
  case Nil
  then show ?case by simp
next
  case (Cons f fs)
  then obtain fid where fid: "field_id f = Some fid"
    by (cases "field_id f") auto
  let ?m1 = "map_set (stripBrackets fid) (friendlyName f) m0"
  have "resolver_map ?m1"
    using Cons.prems(2) plain_stripBrackets friendlyName_bracketed by (rule resolver_map_set)
  moreover have "buildCalcMap fs ?m1 = Inr m \<or> buildCalcMap fs m0 = Inr m"
    using Cons.prems(1) fid by (auto simp: Let_def split: if_splits)
  ultimately show ?case
    using Cons.IH Cons.prems(2) by blast
qed

section \<open>Evaluating the examples\<close>

text \<open>
  The results on the example inputs, computed with the code equations of the model.
\<close>

lemma captionReference_result:
  "extractDataFromTwb num captionReference =
     Inr \<lparr> result_fields =
             [plain_field 1 ''Sales'' ''[Calculation_2]'' ''Double Profit''
                (Some ''[Profit]*2'') (Some ''[Profit]*2'') Calculated_Field,
              plain_field 0 ''Sales'' ''[Calculation_1]'' ''Profit'' None None Default_Field],
           calcs =
             [plain_field 1 ''Sales'' ''[Calculation_2]'' ''Double Profit''
                (Some ''[Profit]*2'') (Some ''[Profit]*2'') Calculated_Field],
           relationships =
             [\<lparr>rel_from = Some ''Profit'', rel_to = Some ''Double Profit''\<rparr>] \<rparr>"
  by code_simp

lemma captionReference_token_scan:
  "extractDependencies
     [plain_field 1 ''Sales'' ''[Calculation_2]'' ''Double Profit''
        (Some ''[Profit]*2'') (Some ''[Profit]*2'') Calculated_Field,
      plain_field 0 ''Sales'' ''[Calculation_1]'' ''Profit'' None None Default_Field]
   = [\<lparr>rel_from = Some ''Profit'', rel_to = Some ''Double Profit''\<rparr>]"
  by code_simp

lemma captionReference_containment:
  "analyzeDependencies
     [plain_field 1 ''Sales'' ''[Calculation_2]'' ''Double Profit''
        (Some ''[Profit]*2'') (Some ''[Profit]*2'') Calculated_Field,
      plain_field 0 ''Sales'' ''[Calculation_1]'' ''Profit'' None None Default_Field]
     [plain_field 1 ''Sales'' ''[Calculation_2]'' ''Double Profit''
        (Some ''[Profit]*2'') (Some ''[Profit]*2'') Calculated_Field]
   = Inr []"
  by code_simp

lemma idReference_result:
  "extractDataFromTwb num idReference =
     Inr \<lparr> result_fields =
             [plain_field 1 ''Sales'' ''[Calculation_2]'' ''Double Profit''
                (Some ''[Profit]*2'') (Some ''[calculation_1]*2'') Calculated_Field,
              plain_field 0 ''Sales'' ''[Calculation_1]'' ''Profit'' None None Default_Field],
           calcs =
             [plain_field 1 ''Sales'' ''[Calculation_2]'' ''Double Profit''
                (Some ''[Profit]*2'') (Some ''[calculation_1]*2'') Calculated_Field],
           relationships =
             [\<lparr>rel_from = Some ''Profit'', rel_to = Some ''Double Profit''\<rparr>] \<rparr>"
  by code_simp

lemma idReference_raw:
  "collectFields (document_getElementsByTagName idReference ''datasource'') ([], 0) =
     Inr ([plain_field 0 ''Sales'' ''[Calculation_1]'' ''Profit'' None None Default_Field,
           plain_field 1 ''Sales'' ''[Calculation_2]'' ''Double Profit''
             (Some ''[calculation_1]*2'') (Some ''[calculation_1]*2'') Calculated_Field], 2)"
  by code_simp

lemma scenarioC_raw:
  "collectFields (document_getElementsByTagName scenarioC ''datasource'') ([], 0) =
     Inr ([plain_field 0 ''Sales'' ''[Score]'' ''Score''
             (Some ''[External Metric]*2'') (Some ''[External Metric]*2'') Calculated_Field], 1)"
  by code_simp

lemma scenarioC_map:
  "buildCalcMap [plain_field 0 ''Sales'' ''[Score]'' ''Score''
             (Some ''[External Metric]*2'') (Some ''[External Metric]*2'') Calculated_Field] []
     = Inr [(''Score'', ''[Score]'')]"
  by code_simp

lemma scenarioC_sorted:
  "sortedFields num [(''Score'', ''[Score]'')]
     [plain_field 0 ''Sales'' ''[Score]'' ''Score''
             (Some ''[External Metric]*2'') (Some ''[External Metric]*2'') Calculated_Field]
   = [plain_field 0 ''Sales'' ''[Score]'' ''Score''
             (Some ''[External Metric]*2'') (Some ''[External Metric]*2'') Calculated_Field]"
  by code_simp

lemma scenarioC_result:
  "extractDataFromTwb num scenarioC =
     Inr \<lparr> result_fields =
             [plain_field 0 ''Sales'' ''[Score]'' ''Score''
                (Some ''[External Metric]*2'') (Some ''[External Metric]*2'') Calculated_Field,
              placeholder 1 (Some ''External Metric'')],
           calcs =
             [plain_field 0 ''Sales'' ''[Score]'' ''Score''
                (Some ''[External Metric]*2'') (Some ''[External Metric]*2'') Calculated_Field],
           relationships =
             [\<lparr>rel_from = Some ''External Metric'', rel_to = Some ''Score''\<rparr>] \<rparr>"
  by code_simp

lemma captionIsOtherId_raw:
  "collectFields (document_getElementsByTagName captionIsOtherId ''datasource'') ([], 0) =
     Inr ([plain_field 0 ''Sales'' ''[A]'' ''X'' (Some ''[B]'') (Some ''[B]'') Calculated_Field,
           plain_field 1 ''Sales'' ''[B]'' ''Y'' None None Default_Field,
           plain_field 2 ''Sales'' ''[B]'' ''A'' (Some ''1'') (Some ''1'') Calculated_Field], 3)"
  by code_simp

lemma captionIsOtherId_map:
  "buildCalcMap
     [plain_field 0 ''Sales'' ''[A]'' ''X'' (Some ''[B]'') (Some ''[B]'') Calculated_Field,
      plain_field 1 ''Sales'' ''[B]'' ''Y'' None None Default_Field,
      plain_field 2 ''Sales'' ''[B]'' ''A'' (Some ''1'') (Some ''1'') Calculated_Field] []
   = Inr [(''A'', ''[X]''), (''B'', ''[A]'')]"
  by code_simp

lemma captionIsOtherId_sorted:
  "sortedFields num [(''A'', ''[X]''), (''B'', ''[A]'')]
     [plain_field 0 ''Sales'' ''[A]'' ''X'' (Some ''[B]'') (Some ''[B]'') Calculated_Field,
      plain_field 1 ''Sales'' ''[B]'' ''Y'' None None Default_Field,
      plain_field 2 ''Sales'' ''[B]'' ''A'' (Some ''1'') (Some ''1'') Calculated_Field]
   = [plain_field 0 ''Sales'' ''[A]'' ''X'' (Some ''[A]'') (Some ''[B]'') Calculated_Field,
      plain_field 1 ''Sales'' ''[B]'' ''Y'' None None Default_Field]"
  by code_simp

lemma captionIsOtherId_result:
  "extractDataFromTwb num captionIsOtherId =
     Inr \<lparr> result_fields =
             [plain_field 0 ''Sales'' ''[A]'' ''X'' (Some ''[A]'') (Some ''[B]'') Calculated_Field,
              plain_field 1 ''Sales'' ''[B]'' ''Y'' None None Default_Field,
              placeholder 3 (Some ''A'')],
           calcs =
             [plain_field 0 ''Sales'' ''[A]'' ''X'' (Some ''[A]'') (Some ''[B]'') Calculated_Field],
           relationships = [\<lparr>rel_from = Some ''A'', rel_to = Some ''X''\<rparr>] \<rparr>"
  by code_simp

lemma noAttributes_result:
  "extractDataFromTwb num noAttributes =
     Inr \<lparr> result_fields =
             [paramRecord 1 (Some ''PARAMETERS'') (Some ''PARAMETERS'') (Element ''param'' [] []),
              columnRecord 0 (Some ''Unknown Datasource'') (Some ''Unknown Datasource'') False
                (Element ''datasource'' [] [Element ''column'' [] []]) (Element ''column'' [] [])],
           calcs =
             [paramRecord 1 (Some ''PARAMETERS'') (Some ''PARAMETERS'') (Element ''param'' [] [])],
           relationships = [] \<rparr>"
  by code_simp

lemma twoParameterColumns_raw:
  "collectFields (document_getElementsByTagName twoParameterColumns ''datasource'') ([], 0) =
     Inr ([plain_field 0 ''Parameters'' ''[T]'' ''First'' None None Parameters,
           plain_field 1 ''Parameters'' ''[T]'' ''Second'' None None Parameters,
           plain_field 2 ''Sales'' ''[T]'' ''Third'' None None Default_Field], 3)"
  by code_simp

lemma twoParameterColumns_map:
  "buildCalcMap
     [plain_field 0 ''Parameters'' ''[T]'' ''First'' None None Parameters,
      plain_field 1 ''Parameters'' ''[T]'' ''Second'' None None Parameters,
      plain_field 2 ''Sales'' ''[T]'' ''Third'' None None Default_Field] []
   = Inr [(''T'', ''[Second]'')]"
  by code_simp

lemma twoParameterColumns_result:
  "extractDataFromTwb num twoParameterColumns =
     Inr \<lparr> result_fields = [plain_field 0 ''Parameters'' ''[T]'' ''First'' None None Parameters],
           calcs = [plain_field 0 ''Parameters'' ''[T]'' ''First'' None None Parameters],
           relationships = [] \<rparr>"
  by code_simp

lemma scenarioB_result:
  "extractDataFromTwb num scenarioB =
     Inr \<lparr> result_fields =
             [paramRecord 0 (Some ''Parameters'') (Some ''Parameters'')
                (Element ''param'' [(''name'', ''Threshold'')] [])],
           calcs =
             [paramRecord 0 (Some ''Parameters'') (Some ''Parameters'')
                (Element ''param'' [(''name'', ''Threshold'')] [])],
           relationships = [] \<rparr>"
  by code_simp

lemma scenarioB_swapped_result:
  "extractDataFromTwb num scenarioB_swapped =
     Inr \<lparr> result_fields =
             [paramRecord 1 (Some ''Parameters'') (Some ''Parameters'')
                (Element ''param'' [(''name'', ''Threshold'')] [])],
           calcs =
             [paramRecord 1 (Some ''Parameters'') (Some ''Parameters'')
                (Element ''param'' [(''name'', ''Threshold'')] [])],
           relationships = [] \<rparr>"
  by code_simp

lemma threshold_parameter:
  "field_caption (paramRecord c (Some ''Parameters'') (Some ''Parameters'')
                    (Element ''param'' [(''name'', ''Threshold'')] [])) = Some ''Threshold''"
  by (simp add: paramRecord_def js_or_def truthy_def)

lemma salesThenLower_raw:
  "collectFields (document_getElementsByTagName salesThenLower ''datasource'') ([], 0) =
     Inr ([plain_field 0 ''Sales'' ''[P]'' ''Plain'' None None Default_Field,
           plain_field 1 ''parameters'' ''[P]'' ''Lower'' None None Parameters], 2)"
  by code_simp

lemma salesThenLower_map:
  "buildCalcMap
     [plain_field 0 ''Sales'' ''[P]'' ''Plain'' None None Default_Field,
      plain_field 1 ''parameters'' ''[P]'' ''Lower'' None None Parameters] []
   = Inr [(''P'', ''[Lower]'')]"
  by code_simp

lemma salesThenLower_result:
  "extractDataFromTwb num salesThenLower =
     Inr \<lparr> result_fields = [plain_field 0 ''Sales'' ''[P]'' ''Plain'' None None Default_Field],
           calcs = [],
           relationships = [] \<rparr>"
  by code_simp

lemma lowerThenExact_raw:
  "collectFields (document_getElementsByTagName lowerThenExact ''datasource'') ([], 0) =
     Inr ([plain_field 0 ''parameters'' ''[P]'' ''Lower'' None None Parameters,
           plain_field 1 ''Parameters'' ''[P]'' ''Exact'' None None Parameters], 2)"
  by code_simp

lemma lowerThenExact_result:
  "extractDataFromTwb num lowerThenExact =
     Inr \<lparr> result_fields = [plain_field 1 ''Parameters'' ''[P]'' ''Exact'' None None Parameters],
           calcs = [plain_field 1 ''Parameters'' ''[P]'' ''Exact'' None None Parameters],
           relationships = [] \<rparr>"
  by code_simp

lemma lower_parameters_text: "map lower_char ''parameters'' = ''parameters''"
  by code_simp

lemma bracketNames_conditions:
  "resolver_map bracketNames"
  "list_all (\<lambda>(k, v). literal v \<and> rewriteFormula bracketNames v = v) bracketNames"
  by code_simp+

lemma bracketNames_eval:
  "rewriteFormula bracketNames ''[calculation_1]/[Calculation_2]'' = ''[Profit ($)]/[Sales [net]]''"
  "rewriteFormula bracketNames ''[Profit ($)]/[Sales [net]]'' = ''[Profit ($)]/[Sales [net]]''"
  by code_simp+

lemma chainedNames_eval:
  "rewriteFormula chainedNames ''[Cost]'' = ''[Sales]''"
  "rewriteFormula chainedNames ''[Sales]'' = ''[Revenue]''"
  "resolver_map chainedNames"
  "list_all (\<lambda>(k, v). literal v) chainedNames"
  by code_simp+

lemma dollarNames_eval:
  "rewriteFormula dollarNames ''[Tax]'' = ''[Net $]''"
  "rewriteFormula dollarNames ''[Net $]'' = ''[Income]''"
  "resolver_map dollarNames"
  "list_all (\<lambda>(k, v). rewriteFormula dollarNames v = v) dollarNames"
  by code_simp+

lemma matchNames_eval:
  "rewriteFormula matchNames ''[Net]'' = ''[[Net]]''"
  "rewriteFormula matchNames ''[[Net]]'' = ''[[[Net]]]''"
  "resolver_map matchNames"
  "list_all (\<lambda>(k, v). rewriteFormula matchNames v = v) matchNames"
  by code_simp+

lemma beforeNames_eval:
  "rewriteFormula beforeNames ''Tax[Net]'' = ''Tax[Tax]''"
  "rewriteFormula beforeNames ''Tax[Tax]'' = ''Tax[Duty]''"
  "resolver_map beforeNames"
  "list_all (\<lambda>(k, v). rewriteFormula beforeNames v = v) beforeNames"
  by code_simp+

lemma afterNames_eval:
  "rewriteFormula afterNames ''[Net]Tax'' = ''[Tax]Tax''"
  "rewriteFormula afterNames ''[Tax]Tax'' = ''[Duty]Tax''"
  "resolver_map afterNames"
  "list_all (\<lambda>(k, v). rewriteFormula afterNames v = v) afterNames"
  by code_simp+

lemma bracketKey_eval:
  "rewriteFormula bracketKey ''[a][a][b]'' = ''[a][b]''"
  "rewriteFormula bracketKey ''[a][b]'' = ''[b]''"
  "list_all (\<lambda>(k, v). literal v \<and> rewriteFormula bracketKey v = v) bracketKey"
  by code_simp+

lemma bareName_eval:
  "rewriteFormula bareName ''[[K]]'' = ''[K]''"
  "rewriteFormula bareName ''[K]'' = ''K''"
  "list_all (\<lambda>(k, v). literal v \<and> rewriteFormula bareName v = v) bareName"
  by code_simp+













section \<open>The claims\<close>

text \<open>
  C1: every relationship's \<open>from\<close> and \<open>to\<close> is the caption of a record of the
  returned fields. The returned fields are the deduplicated list followed by the
  placeholders, whose counters go on from the collector's counter; and for every
  \<open>from\<close> that is no caption of the deduplicated list there is a placeholder with that
  caption, which is a \<open>Default_Field\<close> of the datasource \<open>Unknown\<close>.
\<close>

theorem closure_of_relationships:
  assumes "collectFields (document_getElementsByTagName xmlDoc ''datasource'') ([], 0)
             = Inr (allFields, cnt)"
    and "buildCalcMap allFields [] = Inr calcMapRaw"
    and "extractDataFromTwb num xmlDoc = Inr out"
  shows "(\<forall>rel\<in>set (relationships out).
            rel_from rel \<in> field_caption ` set (result_fields out)
            \<and> rel_to rel \<in> field_caption ` set (result_fields out))
         \<and> map counter allFields = [0..<cnt]
         \<and> (\<exists>added.
               result_fields out = sortedFields num calcMapRaw allFields @ added
               \<and> map counter added = [cnt..<cnt + length added]
               \<and> (\<forall>rel\<in>set (relationships out).
                     rel_from rel \<notin> field_caption ` set (sortedFields num calcMapRaw allFields)
                     \<longrightarrow> (\<exists>p\<in>set added.
                            p = placeholder (counter p) (rel_from rel)
                            \<and> field_caption p = rel_from rel
                            \<and> datasource p = Some ''Unknown''
                            \<and> category p = Default_Field)))"
proof -
  let ?unique = "sortedFields num calcMapRaw allFields"
  let ?rels = "extractDependencies ?unique"
  let ?added = "ensureFields ?rels (map field_caption ?unique) [] cnt"
  have out: "out = assemble num calcMapRaw allFields cnt" and coll: "collected (allFields, cnt)"
    using stages_result [OF assms] by blast+
  have fields: "result_fields out = ?unique @ ?added"
    by (simp add: out result_fields_assemble)
  have rels: "relationships out = ?rels"
    by (simp add: out relationships_assemble)
  have from_ok: "rel_from rel \<in> field_caption ` set (result_fields out)"
    if "rel \<in> set ?rels" for rel
    using ensureFields_covers [OF that, of "map field_caption ?unique" cnt]
    by (auto simp: fields)
  have to_ok: "rel_to rel \<in> field_caption ` set (result_fields out)"
    if "rel \<in> set ?rels" for rel
    using extractDependencies_form [OF that] by (auto simp: fields)
  have new: "\<exists>p\<in>set ?added. p = placeholder (counter p) (rel_from rel)
                \<and> field_caption p = rel_from rel
                \<and> datasource p = Some ''Unknown'' \<and> category p = Default_Field"
    if r1: "rel \<in> set ?rels" and r2: "rel_from rel \<notin> field_caption ` set ?unique" for rel
  proof -
    obtain p where p: "p \<in> set ?added" "field_caption p = rel_from rel"
      using ensureFields_covers [OF r1, of "map field_caption ?unique" cnt] r2
      by auto
    obtain r :: relationship and c where "p = placeholder c (rel_from r)"
      using ensureFields_form [OF p(1)] by blast
    then have "p = placeholder (counter p) (rel_from rel)"
      using p(2) by simp
    then show ?thesis
      using p by (metis placeholder_sel(5) placeholder_sel(8))
  qed
  have "map counter allFields = [0..<cnt]"
    using coll by (simp add: collected_def)
  moreover have "map counter ?added = [cnt..<cnt + length ?added]"
    by (rule ensureFields_counters)
  ultimately show ?thesis
    using from_ok to_ok new fields rels by auto
qed

theorem closure_of_relationships_witness:
  "Some ''External Metric''
     \<in> field_caption ` set [plain_field 0 ''Sales'' ''[Score]'' ''Score''
                               (Some ''[External Metric]*2'') (Some ''[External Metric]*2'')
                               Calculated_Field,
                            placeholder 1 (Some ''External Metric'')]
   \<and> Some ''Score''
     \<in> field_caption ` set [plain_field 0 ''Sales'' ''[Score]'' ''Score''
                               (Some ''[External Metric]*2'') (Some ''[External Metric]*2'')
                               Calculated_Field,
                            placeholder 1 (Some ''External Metric'')]
   \<and> (\<exists>added.
         [plain_field 0 ''Sales'' ''[Score]'' ''Score''
            (Some ''[External Metric]*2'') (Some ''[External Metric]*2'') Calculated_Field,
          placeholder 1 (Some ''External Metric'')]
         = [plain_field 0 ''Sales'' ''[Score]'' ''Score''
              (Some ''[External Metric]*2'') (Some ''[External Metric]*2'') Calculated_Field]
           @ added
         \<and> map counter added = [1..<1 + length added]
         \<and> (\<exists>p\<in>set added. p = placeholder (counter p) (Some ''External Metric'')))"
  using closure_of_relationships
          [where num = "\<lambda>s. 0", OF scenarioC_raw scenarioC_map scenarioC_result]
  by (simp add: scenarioC_sorted plain_field_def)

text \<open>
  C2, as amended: when a raw record \<open>p\<close> of the datasource \<open>Parameters\<close> and a raw record
  \<open>x\<close> of another datasource have the same id, \<open>x\<close> is discarded; \<open>p\<close> survives (with
  its formula rewritten) when no record of \<open>Parameters\<close> with that id has a smaller
  counter; and in any case a record of \<open>Parameters\<close> with that id is in the result. On
  the input of Scenario B, in either order of the two datasources, the returned fields
  are exactly one record, the parameter \<open>Threshold\<close> of category \<open>Parameters\<close>.
\<close>

theorem parameters_record_survives:
  "(collectFields (document_getElementsByTagName xmlDoc ''datasource'') ([], 0)
      = Inr (allFields, cnt)
    \<and> buildCalcMap allFields [] = Inr calcMapRaw
    \<and> extractDataFromTwb num xmlDoc = Inr out
    \<and> p \<in> set allFields \<and> x \<in> set allFields
    \<and> datasource_name p = Some ''Parameters'' \<and> datasource_name x \<noteq> Some ''Parameters''
    \<and> field_id p = field_id x
    \<longrightarrow> counter x \<notin> counter ` set (result_fields out)
        \<and> ((\<forall>q\<in>set allFields.
               datasource_name q = Some ''Parameters'' \<and> field_id q = field_id p
               \<longrightarrow> counter p \<le> counter q)
             \<longrightarrow> rewriteField calcMapRaw p \<in> set (result_fields out))
        \<and> (\<exists>s\<in>set (result_fields out).
              field_id s = field_id p \<and> datasource_name s = Some ''Parameters''))
   \<and> (\<exists>r. extractDataFromTwb num scenarioB = Inr r
          \<and> map (\<lambda>f. (field_caption f, category f, datasource_name f)) (result_fields r)
              = [(Some ''Threshold'', Parameters, Some ''Parameters'')])
   \<and> (\<exists>r. extractDataFromTwb num scenarioB_swapped = Inr r
          \<and> map (\<lambda>f. (field_caption f, category f, datasource_name f)) (result_fields r)
              = [(Some ''Threshold'', Parameters, Some ''Parameters'')])"
proof -
  have general: "counter x \<notin> counter ` set (result_fields out)
        \<and> ((\<forall>q\<in>set allFields.
               datasource_name q = Some ''Parameters'' \<and> field_id q = field_id p
               \<longrightarrow> counter p \<le> counter q)
             \<longrightarrow> rewriteField calcMapRaw p \<in> set (result_fields out))
        \<and> (\<exists>s\<in>set (result_fields out).
              field_id s = field_id p \<and> datasource_name s = Some ''Parameters'')"
    if raw: "collectFields (document_getElementsByTagName xmlDoc ''datasource'') ([], 0)
               = Inr (allFields, cnt)"
      and m: "buildCalcMap allFields [] = Inr calcMapRaw"
      and ex: "extractDataFromTwb num xmlDoc = Inr out"
      and p: "p \<in> set allFields" "datasource_name p = Some ''Parameters''"
      and x: "x \<in> set allFields" "datasource_name x \<noteq> Some ''Parameters''"
      and same: "field_id p = field_id x"
  proof -
    have out: "out = assemble num calcMapRaw allFields cnt"
      and coll: "collected (allFields, cnt)"
      using stages_result [OF raw m ex] by blast+
    have "counter x \<notin> counter ` set (result_fields out)"
      unfolding out
      by (rule discarded_in_result [OF coll x(1) p(1) same])
         (simp add: parametersFirst_other [OF p(2) x(2)])
    moreover have "rewriteField calcMapRaw p \<in> set (result_fields out)"
      if "\<forall>q\<in>set allFields. datasource_name q = Some ''Parameters'' \<and> field_id q = field_id p
               \<longrightarrow> counter p \<le> counter q"
      unfolding out by (rule first_parameters_survives [OF coll p that])
    moreover have "\<exists>s\<in>set (result_fields out).
              field_id s = field_id p \<and> datasource_name s = Some ''Parameters''"
    proof -
      let ?S = "{q \<in> set allFields. datasource_name q = Some ''Parameters'' \<and> field_id q = field_id p}"
      have "finite (counter ` ?S)" "counter ` ?S \<noteq> {}"
        using p by auto
      then have "Min (counter ` ?S) \<in> counter ` ?S"
        by (rule Min_in)
      then obtain p0 :: field where p0: "p0 \<in> ?S" "counter p0 = Min (counter ` ?S)"
        by (metis (no_types, lifting) imageE)
      have "\<forall>q\<in>set allFields. datasource_name q = Some ''Parameters'' \<and> field_id q = field_id p0
               \<longrightarrow> counter p0 \<le> counter q"
        using p0 by (auto intro!: Min_le)
      then have "rewriteField calcMapRaw p0 \<in> set (result_fields out)"
        unfolding out using first_parameters_survives [OF coll] p0(1) by simp
      moreover have "field_id (rewriteField calcMapRaw p0) = field_id p"
        "datasource_name (rewriteField calcMapRaw p0) = Some ''Parameters''"
        using p0(1) by simp_all
      ultimately show ?thesis by blast
    qed
    ultimately show ?thesis by blast
  qed
  have b: "\<exists>r. extractDataFromTwb num scenarioB = Inr r
          \<and> map (\<lambda>f. (field_caption f, category f, datasource_name f)) (result_fields r)
              = [(Some ''Threshold'', Parameters, Some ''Parameters'')]"
    by (simp add: scenarioB_result threshold_parameter)
  have b': "\<exists>r. extractDataFromTwb num scenarioB_swapped = Inr r
          \<and> map (\<lambda>f. (field_caption f, category f, datasource_name f)) (result_fields r)
              = [(Some ''Threshold'', Parameters, Some ''Parameters'')]"
    by (simp add: scenarioB_swapped_result threshold_parameter)
  show ?thesis
    using general b b' by blast
qed

theorem parameters_record_survives_witness:
  "counter (plain_field 2 ''Sales'' ''[T]'' ''Third'' None None Default_Field)
     \<notin> counter ` set [plain_field 0 ''Parameters'' ''[T]'' ''First'' None None Parameters]
   \<and> rewriteField [(''T'', ''[Second]'')]
        (plain_field 0 ''Parameters'' ''[T]'' ''First'' None None Parameters)
     \<in> set [plain_field 0 ''Parameters'' ''[T]'' ''First'' None None Parameters]
   \<and> (\<exists>s\<in>set [plain_field 0 ''Parameters'' ''[T]'' ''First'' None None Parameters].
         field_id s = Some ''[T]'' \<and> datasource_name s = Some ''Parameters'')"
  using parameters_record_survives
    [where num = "\<lambda>s. 0" and xmlDoc = twoParameterColumns
       and allFields = "[plain_field 0 ''Parameters'' ''[T]'' ''First'' None None Parameters,
           plain_field 1 ''Parameters'' ''[T]'' ''Second'' None None Parameters,
           plain_field 2 ''Sales'' ''[T]'' ''Third'' None None Default_Field]"
       and cnt = 3 and calcMapRaw = "[(''T'', ''[Second]'')]"
       and out = "\<lparr> result_fields = [plain_field 0 ''Parameters'' ''[T]'' ''First'' None None Parameters],
           calcs = [plain_field 0 ''Parameters'' ''[T]'' ''First'' None None Parameters],
           relationships = [] \<rparr>"
       and p = "plain_field 0 ''Parameters'' ''[T]'' ''First'' None None Parameters"
       and x = "plain_field 2 ''Sales'' ''[T]'' ''Third'' None None Default_Field"]
    twoParameterColumns_raw twoParameterColumns_map
    twoParameterColumns_result [of "\<lambda>s. 0"]
  by (simp add: plain_field_def)

theorem parameters_record_counterexample:
  "\<exists>allFields cnt out p x.
     collectFields (document_getElementsByTagName twoParameterColumns ''datasource'') ([], 0)
       = Inr (allFields, cnt)
     \<and> extractDataFromTwb (\<lambda>s. 0) twoParameterColumns = Inr out
     \<and> p \<in> set allFields \<and> x \<in> set allFields
     \<and> datasource_name p = Some ''Parameters'' \<and> datasource_name x = Some ''Sales''
     \<and> field_id p = field_id x
     \<and> counter p = 1
     \<and> map counter (result_fields out) = [0]
     \<and> counter p \<notin> counter ` set (result_fields out)"
  apply (rule exI [of _ "[plain_field 0 ''Parameters'' ''[T]'' ''First'' None None Parameters,
           plain_field 1 ''Parameters'' ''[T]'' ''Second'' None None Parameters,
           plain_field 2 ''Sales'' ''[T]'' ''Third'' None None Default_Field]"])
  apply (rule exI [of _ 3])
  apply (rule exI [of _ "\<lparr> result_fields = [plain_field 0 ''Parameters'' ''[T]'' ''First'' None None Parameters],
           calcs = [plain_field 0 ''Parameters'' ''[T]'' ''First'' None None Parameters],
           relationships = [] \<rparr>"])
  apply (rule exI [of _ "plain_field 1 ''Parameters'' ''[T]'' ''Second'' None None Parameters"])
  apply (rule exI [of _ "plain_field 2 ''Sales'' ''[T]'' ''Third'' None None Default_Field"])
  apply (simp add: twoParameterColumns_raw twoParameterColumns_result)
  apply (simp add: plain_field_def)
  done

text \<open>
  C3, as amended: let the map be as the identity resolver builds it, its identifiers
  without brackets and its values friendly names in brackets
  (\<open>buildCalcMap_resolver_map\<close>), let no friendly name have one of the patterns \<open>$$\<close>,
  \<open>$&\<close>, \<open>$`\<close> and \<open>$'\<close> of a replacement, and let the rewriter leave every friendly
  name in its brackets as it is. Then rewriting a formula twice gives what rewriting
  it once gives. A friendly name may have brackets, and dollar signs that make no
  pattern. As stated the claim fails on \<open>chainedNames\<close>, where the friendly name of
  \<open>Cost\<close> is the identifier \<open>Sales\<close>, which the pass tries before \<open>Cost\<close>. The other
  maps show that no condition can be left out: each meets all conditions but one,
  and rewriting twice differs from rewriting once.
\<close>

theorem rewrite_idempotent:
  assumes "resolver_map calcMapRaw"
    and "\<forall>(k, v)\<in>set calcMapRaw. literal v"
    and "\<forall>(k, v)\<in>set calcMapRaw. rewriteFormula calcMapRaw v = v"
  shows "rewriteFormula calcMapRaw (rewriteFormula calcMapRaw formula)
           = rewriteFormula calcMapRaw formula"
proof -
  let ?R = "tok_rewrite calcMapRaw"
  have cm: "clean_map calcMapRaw"
    using assms(1,2) by (rule literal_clean_map)
  have token: "slice_1_m1 (tokmap ?R (bracketed (?R t))) = ?R t" if "plain t" for t
  proof -
    have "rewriteFormula calcMapRaw (rewriteFormula calcMapRaw (bracketed t))
        = rewriteFormula calcMapRaw (bracketed t)"
      using fold_token_cases [OF cm assms(2,3) that, of "sortedKeys calcMapRaw"]
      by (auto simp: rewriteFormula_def)
    then have "rewriteFormula calcMapRaw (bracketed (?R t)) = bracketed (?R t)"
      by (simp add: rewriteFormula_bracketed [OF cm])
    then show ?thesis
      by (simp add: rewriteFormula_tokmap [OF cm])
  qed
  have "rewriteFormula calcMapRaw (rewriteFormula calcMapRaw formula)
      = tokmap ?R (tokmap ?R formula)"
    by (simp add: rewriteFormula_tokmap [OF cm])
  also have "\<dots> = tokmap (\<lambda>t. slice_1_m1 (tokmap ?R (bracketed (?R t)))) formula"
    by (rule tokmap_compose)
  also have "\<dots> = tokmap ?R formula"
    by (rule tokmap_cong) (rule token)
  finally show ?thesis
    by (simp add: rewriteFormula_tokmap [OF cm])
qed

theorem rewrite_idempotent_witness:
  "rewriteFormula bracketNames ''[calculation_1]/[Calculation_2]'' = ''[Profit ($)]/[Sales [net]]''
   \<and> rewriteFormula bracketNames ''[Profit ($)]/[Sales [net]]'' = ''[Profit ($)]/[Sales [net]]''"
proof -
  have lit: "\<forall>(k, v)\<in>set bracketNames. literal v"
    and fixed: "\<forall>(k, v)\<in>set bracketNames. rewriteFormula bracketNames v = v"
    using bracketNames_conditions(2) by (auto simp: list_all_iff)
  from rewrite_idempotent [OF bracketNames_conditions(1) lit fixed,
      of "''[calculation_1]/[Calculation_2]''"]
  show ?thesis
    by (simp add: bracketNames_eval)
qed

theorem rewrite_idempotent_counterexample:
  "rewriteFormula chainedNames ''[Cost]'' = ''[Sales]''
   \<and> rewriteFormula chainedNames (rewriteFormula chainedNames ''[Cost]'') = ''[Revenue]''
   \<and> rewriteFormula chainedNames (rewriteFormula chainedNames ''[Cost]'')
       \<noteq> rewriteFormula chainedNames ''[Cost]''
   \<and> resolver_map chainedNames \<and> list_all (\<lambda>(k, v). literal v) chainedNames
   \<and> rewriteFormula dollarNames ''[Tax]'' = ''[Net $]''
   \<and> rewriteFormula dollarNames (rewriteFormula dollarNames ''[Tax]'') = ''[Income]''
   \<and> resolver_map dollarNames
   \<and> list_all (\<lambda>(k, v). rewriteFormula dollarNames v = v) dollarNames
   \<and> rewriteFormula matchNames ''[Net]'' = ''[[Net]]''
   \<and> rewriteFormula matchNames (rewriteFormula matchNames ''[Net]'') = ''[[[Net]]]''
   \<and> resolver_map matchNames
   \<and> list_all (\<lambda>(k, v). rewriteFormula matchNames v = v) matchNames
   \<and> rewriteFormula beforeNames ''Tax[Net]'' = ''Tax[Tax]''
   \<and> rewriteFormula beforeNames (rewriteFormula beforeNames ''Tax[Net]'') = ''Tax[Duty]''
   \<and> resolver_map beforeNames
   \<and> list_all (\<lambda>(k, v). rewriteFormula beforeNames v = v) beforeNames
   \<and> rewriteFormula afterNames ''[Net]Tax'' = ''[Tax]Tax''
   \<and> rewriteFormula afterNames (rewriteFormula afterNames ''[Net]Tax'') = ''[Duty]Tax''
   \<and> resolver_map afterNames
   \<and> list_all (\<lambda>(k, v). rewriteFormula afterNames v = v) afterNames
   \<and> rewriteFormula bracketKey ''[a][a][b]'' = ''[a][b]''
   \<and> rewriteFormula bracketKey (rewriteFormula bracketKey ''[a][a][b]'') = ''[b]''
   \<and> list_all (\<lambda>(k, v). literal v \<and> rewriteFormula bracketKey v = v) bracketKey
   \<and> rewriteFormula bareName ''[[K]]'' = ''[K]''
   \<and> rewriteFormula bareName (rewriteFormula bareName ''[[K]]'') = ''K''
   \<and> list_all (\<lambda>(k, v). literal v \<and> rewriteFormula bareName v = v) bareName"
  by (simp add: chainedNames_eval dollarNames_eval matchNames_eval beforeNames_eval
      afterNames_eval bracketKey_eval bareName_eval)




text \<open>
  C5: on the input of Scenario A the result has exactly three fields, the columns
  \<open>[Sales]\<close> and \<open>[Cost]\<close> as \<open>Default_Field\<close> and \<open>[Profit Ratio]\<close> as
  \<open>Calculated_Field\<close>; the rewritten formula of the latter is the original
  \<open>[Sales]/[Cost]\<close>; and the relationships are exactly the edge from \<open>Sales\<close> and the
  edge from \<open>Cost\<close> to \<open>Profit Ratio\<close>. The presentation order lists the calculated
  field first and the two default fields by name.
\<close>

theorem scenarioA_result:
  "extractDataFromTwb num scenarioA =
     Inr \<lparr> result_fields =
             [plain_field 2 ''Sales'' ''[Profit Ratio]'' ''Profit Ratio''
                (Some ''[Sales]/[Cost]'') (Some ''[Sales]/[Cost]'') Calculated_Field,
              plain_field 1 ''Sales'' ''[Cost]'' ''Cost'' None None Default_Field,
              plain_field 0 ''Sales'' ''[Sales]'' ''Sales'' None None Default_Field],
           calcs =
             [plain_field 2 ''Sales'' ''[Profit Ratio]'' ''Profit Ratio''
                (Some ''[Sales]/[Cost]'') (Some ''[Sales]/[Cost]'') Calculated_Field],
           relationships =
             [\<lparr>rel_from = Some ''Sales'', rel_to = Some ''Profit Ratio''\<rparr>,
              \<lparr>rel_from = Some ''Cost'', rel_to = Some ''Profit Ratio''\<rparr>] \<rparr>"
  by code_simp

text \<open>
  C6, as amended: the deduplicated list, which the returned fields start with, has no
  two records with the same id; the placeholders behind it have no two records with the
  same id, and their captions differ from each other and from every caption of the
  deduplicated list. (A placeholder can have the id of a record of the deduplicated
  list.)
\<close>

theorem ids_unique_after_deduplication:
  assumes "collectFields (document_getElementsByTagName xmlDoc ''datasource'') ([], 0)
             = Inr (allFields, cnt)"
    and "buildCalcMap allFields [] = Inr calcMapRaw"
    and "extractDataFromTwb num xmlDoc = Inr out"
  shows "distinct (map field_id (sortedFields num calcMapRaw allFields))
         \<and> (\<exists>added.
               result_fields out = sortedFields num calcMapRaw allFields @ added
               \<and> distinct (map field_id added)
               \<and> distinct (map field_caption added)
               \<and> field_caption ` set added
                    \<inter> field_caption ` set (sortedFields num calcMapRaw allFields) = {})"
proof -
  let ?unique = "sortedFields num calcMapRaw allFields"
  let ?rels = "extractDependencies ?unique"
  let ?added = "ensureFields ?rels (map field_caption ?unique) [] cnt"
  have out: "out = assemble num calcMapRaw allFields cnt"
    using stages_result [OF assms] by blast
  have "result_fields out = ?unique @ ?added"
    by (simp add: out result_fields_assemble)
  moreover have "\<forall>rel\<in>set ?rels. rel_from rel \<noteq> None"
    using extractDependencies_form by fastforce
  then have "distinct (map field_id ?added)"
    by (rule ensureFields_distinct_ids)
  moreover have "distinct (map field_caption ?added)
      \<and> field_caption ` set ?added \<inter> field_caption ` set ?unique = {}"
    using ensureFields_new_captions [of ?rels "map field_caption ?unique" cnt] by simp
  ultimately show ?thesis
    using distinct_ids_sortedFields by blast
qed

theorem ids_unique_after_deduplication_witness:
  "distinct [Some ''[A]'', Some ''[B]'']
   \<and> (\<exists>added.
         [plain_field 0 ''Sales'' ''[A]'' ''X'' (Some ''[A]'') (Some ''[B]'') Calculated_Field,
          plain_field 1 ''Sales'' ''[B]'' ''Y'' None None Default_Field,
          placeholder 3 (Some ''A'')]
         = [plain_field 0 ''Sales'' ''[A]'' ''X'' (Some ''[A]'') (Some ''[B]'') Calculated_Field,
            plain_field 1 ''Sales'' ''[B]'' ''Y'' None None Default_Field] @ added
         \<and> distinct (map field_id added)
         \<and> distinct (map field_caption added)
         \<and> field_caption ` set added \<inter> {Some ''X'', Some ''Y''} = {})"
  using ids_unique_after_deduplication
          [where num = "\<lambda>s. 0",
            OF captionIsOtherId_raw captionIsOtherId_map captionIsOtherId_result]
  by (simp add: captionIsOtherId_sorted plain_field_def)

theorem ids_unique_counterexample:
  "\<exists>out. extractDataFromTwb (\<lambda>s. 0) captionIsOtherId = Inr out
     \<and> map field_id (result_fields out) = [Some ''[A]'', Some ''[B]'', Some ''[A]'']
     \<and> \<not> distinct (map field_id (result_fields out))"
  by (simp add: captionIsOtherId_result plain_field_def template_str_def)

text \<open>
  C7: there is an input on which the two strategies disagree. In \<open>captionReference\<close>
  the field with the identifier \<open>[Calculation_1]\<close> has the caption \<open>Profit\<close>, and the
  formula of the other field names it by that caption. The token scan of
  \<open>extractDependencies\<close> over the rewritten formulas finds the edge from \<open>Profit\<close> to
  \<open>Double Profit\<close>; the containment test of \<open>analyzeDependencies\<close> over the original
  formulas finds no edge.
\<close>

theorem strategies_disagree:
  "\<exists>xmlDoc out edges.
     extractDataFromTwb num xmlDoc = Inr out
     \<and> analyzeDependencies (result_fields out) (calcs out) = Inr edges
     \<and> (\<exists>f\<in>set (result_fields out).
           field_id f = Some ''[Calculation_1]'' \<and> field_caption f = Some ''Profit'')
     \<and> extractDependencies (result_fields out)
         = [\<lparr>rel_from = Some ''Profit'', rel_to = Some ''Double Profit''\<rparr>]
     \<and> edges = []
     \<and> set (extractDependencies (result_fields out)) \<noteq> set edges"
proof -
  let ?out = "\<lparr> result_fields =
             [plain_field 1 ''Sales'' ''[Calculation_2]'' ''Double Profit''
                (Some ''[Profit]*2'') (Some ''[Profit]*2'') Calculated_Field,
              plain_field 0 ''Sales'' ''[Calculation_1]'' ''Profit'' None None Default_Field],
           calcs =
             [plain_field 1 ''Sales'' ''[Calculation_2]'' ''Double Profit''
                (Some ''[Profit]*2'') (Some ''[Profit]*2'') Calculated_Field],
           relationships =
             [\<lparr>rel_from = Some ''Profit'', rel_to = Some ''Double Profit''\<rparr>] \<rparr>"
  have "extractDataFromTwb num captionReference = Inr ?out"
    by (rule captionReference_result)
  moreover have "analyzeDependencies (result_fields ?out) (calcs ?out) = Inr []"
    using captionReference_containment by simp
  moreover have "extractDependencies (result_fields ?out)
      = [\<lparr>rel_from = Some ''Profit'', rel_to = Some ''Double Profit''\<rparr>]"
    using captionReference_token_scan by simp
  moreover have "\<exists>f\<in>set (result_fields ?out).
           field_id f = Some ''[Calculation_1]'' \<and> field_caption f = Some ''Profit''"
    by (simp add: plain_field_def)
  ultimately show ?thesis
    by (intro exI [of _ captionReference] exI [of _ ?out] exI [of _ "[]"]) simp
qed

text \<open>
  C8: \<open>extractDataFromTwb\<close> returns a result for every tree. A record is made of a
  column or of a parameter and the name and caption of its datasource, and where an
  attribute is missing the member is \<open>null\<close> or its default: the datasource is named
  \<open>Unknown Datasource\<close> and captioned by its name; a column gets the id
  \<open>[col_n]\<close> of its counter, its id for a name, its name for a caption, \<open>false\<close> for
  the flags and \<open>null\<close> for the rest; a parameter gets the id \<open>[null]\<close>, a \<open>null\<close>
  name, its name for a caption and \<open>null\<close> for the rest.
\<close>

theorem missing_attributes_never_raise:
  "(\<exists>out. extractDataFromTwb num xmlDoc = Inr out)
   \<and> (\<forall>allFields cnt f.
         collectFields (document_getElementsByTagName xmlDoc ''datasource'') ([], 0)
           = Inr (allFields, cnt) \<and> f \<in> set allFields
         \<longrightarrow> (\<exists>ds c p e. f = columnRecord c (dsName ds) (dsCaption ds)
                                 (toLowerCase (dsName ds) = Inr ''parameters'') p e
                         \<or> f = paramRecord c (dsName ds) (dsCaption ds) e))
   \<and> (getAttribute ds ''name'' = None \<longrightarrow> dsName ds = Some ''Unknown Datasource'')
   \<and> (getAttribute ds ''caption'' = None \<longrightarrow> dsCaption ds = dsName ds)
   \<and> (let r = columnRecord c dn dc isP parent col
      in (getAttribute col ''id'' = None \<and> getAttribute col ''name'' = None
            \<longrightarrow> field_id r = Some (''[col_'' @ number_str c @ '']''))
         \<and> (getAttribute col ''name'' = None \<longrightarrow> field_name r = field_id r)
         \<and> (getAttribute col ''caption'' = None \<longrightarrow> field_caption r = field_name r)
         \<and> (getAttribute col ''alias'' = None \<longrightarrow> field_alias r = None)
         \<and> (getAttribute col ''datatype'' = None \<longrightarrow> field_datatype r = None)
         \<and> (getAttribute col ''default-aggregation'' = None \<longrightarrow> field_def_agg r = None)
         \<and> (getAttribute col ''role'' = None \<longrightarrow> field_role r = None)
         \<and> (getAttribute col ''type'' = None \<longrightarrow> field_type r = None)
         \<and> (getAttribute col ''hidden'' = None \<longrightarrow> field_hidden r = Some False)
         \<and> (getAttribute col ''semantic-role'' = None
              \<longrightarrow> field_is_nominal r = Some False \<and> field_is_ordinal r = Some False
                  \<and> field_is_quantitative r = Some False)
         \<and> (getElementsByTagName col ''calculation'' = []
              \<longrightarrow> field_calculation r = None \<and> field_calculation_bk r = None)
         \<and> (\<forall>tag. first (getElementsByTagName col ''calculation'') = Some tag
                    \<and> getAttribute tag ''formula'' = None
              \<longrightarrow> field_calculation r = None \<and> field_calculation_bk r = None)
         \<and> (getElementsByTagName col ''desc'' = [] \<longrightarrow> field_desc r = None))
   \<and> (let r = paramRecord c dn dc param
      in (getAttribute param ''name'' = None
            \<longrightarrow> field_id r = Some ''[null]'' \<and> field_name r = None)
         \<and> (getAttribute param ''caption'' = None \<longrightarrow> field_caption r = field_name r)
         \<and> (getAttribute param ''alias'' = None \<longrightarrow> field_alias r = None)
         \<and> (getAttribute param ''datatype'' = None \<longrightarrow> field_datatype r = None))"
proof -
  have total: "\<exists>out. extractDataFromTwb num xmlDoc = Inr out"
    using extract_stages [of xmlDoc num] by blast
  have built: "\<exists>ds c p e. f = columnRecord c (dsName ds) (dsCaption ds)
                                 (toLowerCase (dsName ds) = Inr ''parameters'') p e
                         \<or> f = paramRecord c (dsName ds) (dsCaption ds) e"
    if "collectFields (document_getElementsByTagName xmlDoc ''datasource'') ([], 0)
           = Inr (allFields, cnt)" and "f \<in> set allFields" for allFields cnt and f :: field
    using collectFields_built [OF that(1), of f] that(2) by auto
  have ds: "(getAttribute ds ''name'' = None \<longrightarrow> dsName ds = Some ''Unknown Datasource'')
      \<and> (getAttribute ds ''caption'' = None \<longrightarrow> dsCaption ds = dsName ds)"
    by (simp add: dsName_def dsCaption_def)
  have col: "let r = columnRecord c dn dc isP parent col
      in (getAttribute col ''id'' = None \<and> getAttribute col ''name'' = None
            \<longrightarrow> field_id r = Some (''[col_'' @ number_str c @ '']''))
         \<and> (getAttribute col ''name'' = None \<longrightarrow> field_name r = field_id r)
         \<and> (getAttribute col ''caption'' = None \<longrightarrow> field_caption r = field_name r)
         \<and> (getAttribute col ''alias'' = None \<longrightarrow> field_alias r = None)
         \<and> (getAttribute col ''datatype'' = None \<longrightarrow> field_datatype r = None)
         \<and> (getAttribute col ''default-aggregation'' = None \<longrightarrow> field_def_agg r = None)
         \<and> (getAttribute col ''role'' = None \<longrightarrow> field_role r = None)
         \<and> (getAttribute col ''type'' = None \<longrightarrow> field_type r = None)
         \<and> (getAttribute col ''hidden'' = None \<longrightarrow> field_hidden r = Some False)
         \<and> (getAttribute col ''semantic-role'' = None
              \<longrightarrow> field_is_nominal r = Some False \<and> field_is_ordinal r = Some False
                  \<and> field_is_quantitative r = Some False)
         \<and> (getElementsByTagName col ''calculation'' = []
              \<longrightarrow> field_calculation r = None \<and> field_calculation_bk r = None)
         \<and> (\<forall>tag. first (getElementsByTagName col ''calculation'') = Some tag
                    \<and> getAttribute tag ''formula'' = None
              \<longrightarrow> field_calculation r = None \<and> field_calculation_bk r = None)
         \<and> (getElementsByTagName col ''desc'' = [] \<longrightarrow> field_desc r = None)"
    by (auto simp: columnRecord_def Let_def template_str_def fieldCalculation_def fieldDesc_def
        first_def split: list.splits)
  have par: "let r = paramRecord c dn dc param
      in (getAttribute param ''name'' = None
            \<longrightarrow> field_id r = Some ''[null]'' \<and> field_name r = None)
         \<and> (getAttribute param ''caption'' = None \<longrightarrow> field_caption r = field_name r)
         \<and> (getAttribute param ''alias'' = None \<longrightarrow> field_alias r = None)
         \<and> (getAttribute param ''datatype'' = None \<longrightarrow> field_datatype r = None)"
    by (simp add: paramRecord_def Let_def template_str_def)
  show ?thesis
    using total built ds col par by blast
qed

theorem missing_attributes_never_raise_witness:
  "(\<exists>out. extractDataFromTwb (\<lambda>s. 0) noAttributes = Inr out)
   \<and> dsName (Element ''datasource'' [] [Element ''column'' [] []]) = Some ''Unknown Datasource''
   \<and> dsCaption (Element ''datasource'' [] [Element ''column'' [] []]) = Some ''Unknown Datasource''
   \<and> (let r = columnRecord 0 (Some ''Unknown Datasource'') (Some ''Unknown Datasource'') False
                 (Element ''datasource'' [] [Element ''column'' [] []]) (Element ''column'' [] [])
      in field_id r = Some ''[col_0]'' \<and> field_name r = Some ''[col_0]''
         \<and> field_caption r = Some ''[col_0]'' \<and> field_alias r = None
         \<and> field_datatype r = None \<and> field_def_agg r = None \<and> field_role r = None
         \<and> field_type r = None \<and> field_hidden r = Some False
         \<and> field_is_nominal r = Some False \<and> field_is_ordinal r = Some False
         \<and> field_is_quantitative r = Some False
         \<and> field_calculation r = None \<and> field_calculation_bk r = None \<and> field_desc r = None)
   \<and> (let r = paramRecord 1 (Some ''PARAMETERS'') (Some ''PARAMETERS'') (Element ''param'' [] [])
      in field_id r = Some ''[null]'' \<and> field_name r = None \<and> field_caption r = None
         \<and> field_alias r = None \<and> field_datatype r = None)"
proof -
  have n0: "char_of (48 :: nat) = CHR ''0''"
    by code_simp
  have g: "getElementsByTagName (Element ''column'' [] []) tag = []" for tag
    by (simp add: getElementsByTagName_def)
  show ?thesis
    using missing_attributes_never_raise
      [where num = "\<lambda>s. 0" and xmlDoc = noAttributes
         and ds = "Element ''datasource'' [] [Element ''column'' [] []]"
         and c = 0 and dn = "Some ''Unknown Datasource''" and dc = "Some ''Unknown Datasource''"
         and isP = False and parent = "Element ''datasource'' [] [Element ''column'' [] []]"
         and col = "Element ''column'' [] []"]
      missing_attributes_never_raise
      [where num = "\<lambda>s. 0" and xmlDoc = noAttributes
         and c = 1 and dn = "Some ''PARAMETERS''" and dc = "Some ''PARAMETERS''"
         and param = "Element ''param'' [] []"]
    by (simp add: Let_def n0 g)
qed

text \<open>
  C9: let \<open>raw\<close> be a record as the collector created it, with the formula \<open>formula\<close>,
  and \<open>f\<close> the record of the result with its counter. Then \<open>raw\<close> was made of a column
  whose \<open>calculation\<close> child has the attribute \<open>formula\<close> with this text, which went
  into \<open>field_calculation\<close> and \<open>field_calculation_bk\<close> alike; the
  \<open>field_calculation_bk\<close> of \<open>f\<close> is still this text, and \<open>f\<close> is \<open>raw\<close> but for the
  value of \<open>field_calculation\<close>. The rewriter changes no member of a record but
  \<open>field_calculation\<close>.
\<close>

theorem original_formula_untouched:
  assumes "collectFields (document_getElementsByTagName xmlDoc ''datasource'') ([], 0)
             = Inr (allFields, cnt)"
    and "extractDataFromTwb num xmlDoc = Inr out"
    and "raw \<in> set allFields"
    and "field_calculation raw = Some formula"
    and "f \<in> set (result_fields out)"
    and "counter f = counter raw"
  shows "(\<exists>ds c p e. raw = columnRecord c (dsName ds) (dsCaption ds)
                              (toLowerCase (dsName ds) = Inr ''parameters'') p e
            \<and> fieldCalculation e = Some formula)
         \<and> field_calculation_bk raw = Some formula
         \<and> field_calculation_bk f = Some formula
         \<and> f = raw\<lparr>field_calculation := field_calculation f\<rparr>
         \<and> (\<forall>m g. rewriteField m g = g\<lparr>field_calculation := field_calculation (rewriteField m g)\<rparr>)"
proof -
  obtain m where m: "out = assemble num m allFields cnt" and coll: "collected (allFields, cnt)"
    using stages_unique [OF assms(1,2)] by blast
  have "raw_ok raw"
    using coll assms(3) by (simp add: collected_def list_all_iff)
  then have bk: "field_calculation_bk raw = Some formula"
    using assms(4) by (simp add: raw_ok_def)
  have small: "counter raw < cnt" and inj: "inj_on counter (set allFields)"
    using collected_counters [OF coll] assms(3) by auto
  have "f \<in> set (sortedFields num m allFields)"
  proof (rule ccontr)
    assume "f \<notin> set (sortedFields num m allFields)"
    then have "f \<in> set (ensureFields (extractDependencies (sortedFields num m allFields))
                 (map field_caption (sortedFields num m allFields)) [] cnt)"
      using assms(5) by (auto simp: m result_fields_assemble)
    then obtain rel :: relationship and c where "cnt \<le> c" "f = placeholder c (rel_from rel)"
      using ensureFields_form by blast
    then have "cnt \<le> counter f"
      by (simp add: placeholder_def)
    then show False
      using small assms(6) by simp
  qed
  then obtain r :: field where r: "r \<in> set allFields" "f = rewriteField m r"
    using set_sortedFields by blast
  have "counter r = counter raw"
    using r(2) assms(6) by simp
  then have "r = raw"
    using inj r(1) assms(3) by (auto dest: inj_onD)
  then have f: "f = rewriteField m raw"
    using r(2) by simp
  have frame: "f = raw\<lparr>field_calculation := field_calculation f\<rparr>"
    using rewriteField_frame [of m raw] f by simp
  have "field_calculation_bk f = Some formula"
    using f bk by simp
  moreover have "\<exists>ds c p e. raw = columnRecord c (dsName ds) (dsCaption ds)
                              (toLowerCase (dsName ds) = Inr ''parameters'') p e
            \<and> fieldCalculation e = Some formula"
  proof -
    from collectFields_built [OF assms(1), of raw] assms(3)
    consider ds c p e where "raw = columnRecord c (dsName ds) (dsCaption ds)
                      (toLowerCase (dsName ds) = Inr ''parameters'') p e"
      | ds c e where "raw = paramRecord c (dsName ds) (dsCaption ds) e"
      by auto
    then show ?thesis
    proof cases
      case 1
      then have "fieldCalculation e = Some formula"
        using assms(4) by (simp add: columnRecord_def Let_def)
      then show ?thesis using 1 by blast
    next
      case 2
      then show ?thesis
        using assms(4) by (simp add: paramRecord_def)
    qed
  qed
  ultimately show ?thesis
    using bk frame rewriteField_frame by blast
qed

theorem original_formula_untouched_witness:
  "field_calculation_bk
     (plain_field 1 ''Sales'' ''[Calculation_2]'' ''Double Profit''
        (Some ''[Profit]*2'') (Some ''[calculation_1]*2'') Calculated_Field)
     = Some ''[calculation_1]*2''
   \<and> plain_field 1 ''Sales'' ''[Calculation_2]'' ''Double Profit''
        (Some ''[Profit]*2'') (Some ''[calculation_1]*2'') Calculated_Field
     = (plain_field 1 ''Sales'' ''[Calculation_2]'' ''Double Profit''
          (Some ''[calculation_1]*2'') (Some ''[calculation_1]*2'') Calculated_Field)
         \<lparr>field_calculation := Some ''[Profit]*2''\<rparr>"
proof -
  let ?f = "plain_field 1 ''Sales'' ''[Calculation_2]'' ''Double Profit''
          (Some ''[Profit]*2'') (Some ''[calculation_1]*2'') Calculated_Field"
  let ?raw = "plain_field 1 ''Sales'' ''[Calculation_2]'' ''Double Profit''
          (Some ''[calculation_1]*2'') (Some ''[calculation_1]*2'') Calculated_Field"
  have raw: "?raw \<in> set [plain_field 0 ''Sales'' ''[Calculation_1]'' ''Profit'' None None Default_Field,
                          ?raw]"
    by simp
  have formula: "field_calculation ?raw = Some ''[calculation_1]*2''"
    and fc: "field_calculation ?f = Some ''[Profit]*2''"
    and counter: "counter ?f = counter ?raw"
    by (simp_all add: plain_field_def)
  have f: "?f \<in> set (result_fields \<lparr> result_fields =
             [?f, plain_field 0 ''Sales'' ''[Calculation_1]'' ''Profit'' None None Default_Field],
           calcs = [?f],
           relationships =
             [\<lparr>rel_from = Some ''Profit'', rel_to = Some ''Double Profit''\<rparr>] \<rparr>)"
    by simp
  from original_formula_untouched [OF idReference_raw idReference_result raw formula f counter]
  show ?thesis
    unfolding fc by blast
qed

text \<open>
  C10, as amended: the columns of a datasource whose name is \<open>parameters\<close> up to case
  are of category \<open>Parameters\<close> and carry the datasource's name as it is written, so
  that, unless it is written \<open>Parameters\<close>, the deduplication gives them no priority:
  a raw record that is not of a datasource named exactly \<open>Parameters\<close> is discarded as
  soon as a record with the same id has a smaller counter, whatever datasource that one
  is of; and where no record with some id is of a datasource named exactly
  \<open>Parameters\<close>, the record with the smallest counter survives.
\<close>

theorem lower_case_parameters_no_priority:
  "(getAttribute ds ''name'' = Some n \<and> map lower_char n = ''parameters''
    \<longrightarrow> toLowerCase (dsName ds) = Inr ''parameters''
        \<and> category (columnRecord c (dsName ds) (dsCaption ds)
                      (toLowerCase (dsName ds) = Inr ''parameters'') parent col) = Parameters
        \<and> datasource_name (columnRecord c (dsName ds) (dsCaption ds)
                      (toLowerCase (dsName ds) = Inr ''parameters'') parent col) = Some n)
   \<and> (collectFields (document_getElementsByTagName xmlDoc ''datasource'') ([], 0)
        = Inr (allFields, cnt)
      \<and> buildCalcMap allFields [] = Inr calcMapRaw
      \<and> extractDataFromTwb num xmlDoc = Inr out
      \<longrightarrow> (\<forall>r\<in>set allFields. \<forall>q\<in>set allFields.
             datasource_name r \<noteq> Some ''Parameters'' \<and> field_id q = field_id r
             \<and> counter q < counter r
             \<longrightarrow> counter r \<notin> counter ` set (result_fields out))
          \<and> (\<forall>s\<in>set allFields.
               (\<forall>q\<in>set allFields. field_id q = field_id s
                  \<longrightarrow> datasource_name q \<noteq> Some ''Parameters'' \<and> counter s \<le> counter q)
               \<longrightarrow> rewriteField calcMapRaw s \<in> set (result_fields out)))"
proof -
  have a: "toLowerCase (dsName ds) = Inr ''parameters''
        \<and> category (columnRecord c (dsName ds) (dsCaption ds)
                      (toLowerCase (dsName ds) = Inr ''parameters'') parent col) = Parameters
        \<and> datasource_name (columnRecord c (dsName ds) (dsCaption ds)
                      (toLowerCase (dsName ds) = Inr ''parameters'') parent col) = Some n"
    if "getAttribute ds ''name'' = Some n" and "map lower_char n = ''parameters''"
  proof -
    have "n \<noteq> []" using that(2) by auto
    then have "dsName ds = Some n"
      using that(1) by (simp add: dsName_def js_or_def truthy_def)
    then show ?thesis
      using that(2) by (simp add: toLowerCase_def columnRecord_def Let_def)
  qed
  have b: "counter r \<notin> counter ` set (result_fields out)"
    if raw: "collectFields (document_getElementsByTagName xmlDoc ''datasource'') ([], 0)
               = Inr (allFields, cnt)"
      and m: "buildCalcMap allFields [] = Inr calcMapRaw"
      and ex: "extractDataFromTwb num xmlDoc = Inr out"
      and r: "r \<in> set allFields" "datasource_name r \<noteq> Some ''Parameters''"
      and q: "q \<in> set allFields" "field_id q = field_id r" "counter q < counter r"
    for r q :: field
  proof -
    have out: "out = assemble num calcMapRaw allFields cnt"
      and coll: "collected (allFields, cnt)"
      using stages_result [OF raw m ex] by blast+
    have "0 < parametersFirst r q"
    proof (cases "datasource_name q = Some ''Parameters''")
      case True
      then show ?thesis using parametersFirst_other [OF True r(2)] by simp
    next
      case False
      then show ?thesis using r(2) q(3) by (simp add: parametersFirst_same)
    qed
    then show ?thesis
      unfolding out by (rule discarded_in_result [OF coll r(1) q(1) q(2)])
  qed
  have c: "rewriteField calcMapRaw s \<in> set (result_fields out)"
    if raw: "collectFields (document_getElementsByTagName xmlDoc ''datasource'') ([], 0)
               = Inr (allFields, cnt)"
      and m: "buildCalcMap allFields [] = Inr calcMapRaw"
      and ex: "extractDataFromTwb num xmlDoc = Inr out"
      and s: "s \<in> set allFields"
      and least: "\<forall>q\<in>set allFields. field_id q = field_id s
                  \<longrightarrow> datasource_name q \<noteq> Some ''Parameters'' \<and> counter s \<le> counter q"
    for s :: field
  proof -
    have out: "out = assemble num calcMapRaw allFields cnt"
      and coll: "collected (allFields, cnt)"
      using stages_result [OF raw m ex] by blast+
    have s_other: "datasource_name s \<noteq> Some ''Parameters''"
      using least s by blast
    have "0 < parametersFirst q s"
      if "q \<in> set allFields" and "field_id q = field_id s \<and> q \<noteq> s" for q
    proof -
      have "counter s \<le> counter q" "datasource_name q \<noteq> Some ''Parameters''"
        using least that by blast+
      moreover have "counter s \<noteq> counter q"
        using collected_counters(1) [OF coll] that s by (auto dest: inj_onD)
      ultimately show ?thesis
        using s_other by (simp add: parametersFirst_same)
    qed
    then show ?thesis
      unfolding out by (intro surviving_in_result [OF coll s]) blast
  qed
  show ?thesis
  proof (intro conjI impI ballI)
    assume h: "getAttribute ds ''name'' = Some n \<and> map lower_char n = ''parameters''"
    note a' = a [OF conjunct1 [OF h] conjunct2 [OF h]]
    show "toLowerCase (dsName ds) = Inr ''parameters''"
      and "category (columnRecord c (dsName ds) (dsCaption ds)
                      (toLowerCase (dsName ds) = Inr ''parameters'') parent col) = Parameters"
      and "datasource_name (columnRecord c (dsName ds) (dsCaption ds)
                      (toLowerCase (dsName ds) = Inr ''parameters'') parent col) = Some n"
      using a' by blast+
  next
    fix r q :: field
    assume "collectFields (document_getElementsByTagName xmlDoc ''datasource'') ([], 0)
        = Inr (allFields, cnt)
      \<and> buildCalcMap allFields [] = Inr calcMapRaw
      \<and> extractDataFromTwb num xmlDoc = Inr out"
      and "r \<in> set allFields" and "q \<in> set allFields"
      and "datasource_name r \<noteq> Some ''Parameters'' \<and> field_id q = field_id r
             \<and> counter q < counter r"
    then show "counter r \<notin> counter ` set (result_fields out)"
      using b [of r q] by simp
  next
    fix s :: field
    assume "collectFields (document_getElementsByTagName xmlDoc ''datasource'') ([], 0)
        = Inr (allFields, cnt)
      \<and> buildCalcMap allFields [] = Inr calcMapRaw
      \<and> extractDataFromTwb num xmlDoc = Inr out"
      and "s \<in> set allFields"
      and "\<forall>q\<in>set allFields. field_id q = field_id s
                  \<longrightarrow> datasource_name q \<noteq> Some ''Parameters'' \<and> counter s \<le> counter q"
    then show "rewriteField calcMapRaw s \<in> set (result_fields out)"
      using c [of s] by simp
  qed
qed

theorem lower_case_parameters_no_priority_witness:
  "category (columnRecord 1 (Some ''parameters'') (Some ''parameters'') True
               (Element ''datasource'' [(''name'', ''parameters'')] [column ''[P]'' ''Lower'' None])
               (column ''[P]'' ''Lower'' None)) = Parameters
   \<and> counter (plain_field 1 ''parameters'' ''[P]'' ''Lower'' None None Parameters)
       \<notin> counter ` set [plain_field 0 ''Sales'' ''[P]'' ''Plain'' None None Default_Field]
   \<and> rewriteField [(''P'', ''[Lower]'')]
        (plain_field 0 ''Sales'' ''[P]'' ''Plain'' None None Default_Field)
       \<in> set [plain_field 0 ''Sales'' ''[P]'' ''Plain'' None None Default_Field]"
proof -
  let ?ds = "Element ''datasource'' [(''name'', ''parameters'')] [column ''[P]'' ''Lower'' None]"
  let ?raw = "[plain_field 0 ''Sales'' ''[P]'' ''Plain'' None None Default_Field,
               plain_field 1 ''parameters'' ''[P]'' ''Lower'' None None Parameters]"
  let ?out = "\<lparr> result_fields = [plain_field 0 ''Sales'' ''[P]'' ''Plain'' None None Default_Field],
           calcs = [], relationships = [] \<rparr>"
  note T = lower_case_parameters_no_priority
    [where ds = ?ds and n = "''parameters''" and c = 1 and parent = ?ds
       and col = "column ''[P]'' ''Lower'' None"
       and xmlDoc = salesThenLower and num = "\<lambda>s. 0" and allFields = ?raw and cnt = 2
       and calcMapRaw = "[(''P'', ''[Lower]'')]" and out = ?out]
  have name: "dsName ?ds = Some ''parameters''" "dsCaption ?ds = Some ''parameters''"
    by (simp_all add: dsName_def dsCaption_def js_or_def truthy_def)
  have low: "toLowerCase (Some ''parameters'') = Inr ''parameters''"
    by code_simp
  have att: "getAttribute ?ds ''name'' = Some ''parameters''"
    by simp
  have "category (columnRecord 1 (dsName ?ds) (dsCaption ?ds)
                    (toLowerCase (dsName ?ds) = Inr ''parameters'') ?ds
                    (column ''[P]'' ''Lower'' None)) = Parameters"
    using T [THEN conjunct1, THEN mp, OF conjI [OF att lower_parameters_text]] by blast
  then have 1: "category (columnRecord 1 (Some ''parameters'') (Some ''parameters'') True ?ds
                      (column ''[P]'' ''Lower'' None)) = Parameters"
    unfolding name low by simp
  have stages: "collectFields (document_getElementsByTagName salesThenLower ''datasource'') ([], 0)
        = Inr (?raw, 2)
      \<and> buildCalcMap ?raw [] = Inr [(''P'', ''[Lower]'')]
      \<and> extractDataFromTwb (\<lambda>s. 0) salesThenLower = Inr ?out"
    using salesThenLower_raw salesThenLower_map salesThenLower_result by blast
  note U = T [THEN conjunct2, THEN mp, OF stages]
  have 2: "counter (plain_field 1 ''parameters'' ''[P]'' ''Lower'' None None Parameters)
       \<notin> counter ` set (result_fields ?out)"
    using U [THEN conjunct1] by (simp add: plain_field_def)
  have 3: "rewriteField [(''P'', ''[Lower]'')]
        (plain_field 0 ''Sales'' ''[P]'' ''Plain'' None None Default_Field)
       \<in> set (result_fields ?out)"
    using U [THEN conjunct2] by (simp add: plain_field_def)
  show ?thesis
    using 1 2 3 by simp
qed

theorem lower_case_parameters_counterexample:
  "\<exists>allFields cnt out s.
     collectFields (document_getElementsByTagName lowerThenExact ''datasource'') ([], 0)
       = Inr (allFields, cnt)
     \<and> extractDataFromTwb (\<lambda>s. 0) lowerThenExact = Inr out
     \<and> s \<in> set allFields
     \<and> datasource_name s = Some ''parameters'' \<and> category s = Parameters
     \<and> (\<forall>q\<in>set allFields. field_id q = field_id s \<and> counter s \<le> counter q)
     \<and> map (\<lambda>f. (counter f, datasource_name f)) (result_fields out) = [(1, Some ''Parameters'')]
     \<and> counter s \<notin> counter ` set (result_fields out)"
  apply (rule exI [of _ "[plain_field 0 ''parameters'' ''[P]'' ''Lower'' None None Parameters,
           plain_field 1 ''Parameters'' ''[P]'' ''Exact'' None None Parameters]"])
  apply (rule exI [of _ 2])
  apply (rule exI [of _ "\<lparr> result_fields = [plain_field 1 ''Parameters'' ''[P]'' ''Exact'' None None Parameters],
           calcs = [plain_field 1 ''Parameters'' ''[P]'' ''Exact'' None None Parameters],
           relationships = [] \<rparr>"])
  apply (rule exI [of _ "plain_field 0 ''parameters'' ''[P]'' ''Lower'' None None Parameters"])
  apply (simp add: lowerThenExact_raw lowerThenExact_result)
  apply (simp add: plain_field_def)
  done

end
